theory Spec2Isabelle
  imports Complex_Main
begin

section \<open>Sample data generator (generate\_sample\_parquet.py)\<close>

subsection \<open>Python built-ins used by the script\<close>

text \<open>
  \<^verbatim>\<open>range(start, stop)\<close> with the default step 1: the integers from \<open>start\<close>
  up to, but not including, \<open>stop\<close>. Python's integers are unbounded, hence \<open>int\<close>.
\<close>

function py_range :: "int \<Rightarrow> int \<Rightarrow> int list" where
  "py_range start stop = (if start < stop then start # py_range (start + 1) stop else [])"
  by pat_completeness auto
termination
  by (relation "measure (\<lambda>(start, stop). nat (stop - start))") auto

declare py_range.simps [simp del]

text \<open>
  \<^verbatim>\<open>str(i)\<close> as the f-string \<^verbatim>\<open>f'Item {i}'\<close> applies it to an integer: the decimal
  digits, most significant first, with a leading minus sign for a negative number.
\<close>

definition digit_char :: "nat \<Rightarrow> char" where
  "digit_char d = char_of (48 + d)"

fun str_nat :: "nat \<Rightarrow> string" where
  "str_nat n = (if n < 10 then [digit_char n] else str_nat (n div 10) @ [digit_char (n mod 10)])"

declare str_nat.simps [simp del]

definition str_int :: "int \<Rightarrow> string" where
  "str_int i = (if i < 0 then CHR ''-'' # str_nat (nat (- i)) else str_nat (nat i))"

text \<open>The reading of a decimal numeral, used to state that \<open>str_int\<close> is the decimal representation.\<close>

definition digit_val :: "char \<Rightarrow> nat" where
  "digit_val c = of_char c - 48"

definition nat_of_digits :: "string \<Rightarrow> nat" where
  "nat_of_digits s = foldl (\<lambda>acc c. 10 * acc + digit_val c) 0 s"

definition is_digit :: "char \<Rightarrow> bool" where
  "is_digit c = (48 \<le> (of_char c :: nat) \<and> (of_char c :: nat) \<le> 57)"

subsection \<open>IEEE 754 binary64 (the dtype float64 of the value column)\<close>

text \<open>
  A finite double is a sign, a significand and an exponent, with value
  \<open>\<plusminus> m * 2 ^ e\<close>. The representation is not required to be normalised; \<open>wf_f64\<close>
  says that the value is one a binary64 datum can hold (53 significant bits, least bit
  weight \<open>2 ^ -1074\<close>, magnitude below \<open>2 ^ 1024\<close>).
\<close>

datatype f64 = Finite bool nat int | Infinity bool | NaN

fun bit_length :: "nat \<Rightarrow> nat" where
  "bit_length n = (if n = 0 then 0 else Suc (bit_length (n div 2)))"

declare bit_length.simps [simp del]

fun wf_f64 :: "f64 \<Rightarrow> bool" where
  "wf_f64 (Finite s m e) = (m < 2 ^ 53 \<and> - 1074 \<le> e \<and> int (bit_length m) + e \<le> 1024)"
| "wf_f64 (Infinity s) = True"
| "wf_f64 NaN = True"

fun is_finite :: "f64 \<Rightarrow> bool" where
  "is_finite (Finite s m e) = True"
| "is_finite (Infinity s) = False"
| "is_finite NaN = False"

definition pow2 :: "int \<Rightarrow> rat" where
  "pow2 e = (if 0 \<le> e then 2 ^ nat e else 1 / 2 ^ nat (- e))"

text \<open>The rational number a finite double stands for (0 for the non-finite ones, which have none).\<close>

fun valof :: "f64 \<Rightarrow> rat" where
  "valof (Finite s m e) = (if s then - 1 else 1) * of_nat m * pow2 e"
| "valof (Infinity s) = 0"
| "valof NaN = 0"

text \<open>\<open>m / 2 ^ k\<close> rounded to the nearest integer, ties to the even one.\<close>

definition round_half_even :: "nat \<Rightarrow> nat \<Rightarrow> nat" where
  "round_half_even m k =
     (let q = m div 2 ^ k; r = m mod 2 ^ k
      in if 2 * r < 2 ^ k then q
         else if 2 ^ k < 2 * r then q + 1
         else if even q then q else q + 1)"

text \<open>
  Rounding of the exact value \<open>\<plusminus> m * 2 ^ e\<close> to binary64 in the default mode
  (round to nearest, ties to even): the significand keeps 53 bits, or fewer in the
  subnormal range, and a rounded magnitude of \<open>2 ^ 1024\<close> or more overflows to infinity.
\<close>

definition round_f64 :: "bool \<Rightarrow> nat \<Rightarrow> int \<Rightarrow> f64" where
  "round_f64 s m e =
     (let k = nat (max (int (bit_length m) - 53) (- 1074 - e));
          m' = round_half_even m k;
          e' = e + int k
      in if 1024 < int (bit_length m') + e' then Infinity s
         else if m' = 2 ^ 53 then Finite s (2 ^ 52) (e' + 1)
         else Finite s m' e')"

text \<open>The product of two doubles: the exact product, rounded.\<close>

fun fmul :: "f64 \<Rightarrow> f64 \<Rightarrow> f64" where
  "fmul NaN y = NaN"
| "fmul x NaN = NaN"
| "fmul (Infinity s) (Infinity t) = Infinity (s \<noteq> t)"
| "fmul (Infinity s) (Finite t n f) = (if n = 0 then NaN else Infinity (s \<noteq> t))"
| "fmul (Finite s m e) (Infinity t) = (if m = 0 then NaN else Infinity (s \<noteq> t))"
| "fmul (Finite s m e) (Finite t n f) = round_f64 (s \<noteq> t) (m * n) (e + f)"

text \<open>The conversion of a Python integer to a double, as \<^verbatim>\<open>array * 1000\<close> does to its scalar.\<close>

definition f64_of_int :: "int \<Rightarrow> f64" where
  "f64_of_int i = round_f64 (i < 0) (nat \<bar>i\<bar>) 0"

subsection \<open>Timestamps and the calendar (the dtype datetime64[ns] of the date column)\<close>

text \<open>
  A timestamp is a count of nanoseconds since 1970-01-01T00:00. Its calendar date is
  that of the whole days it contains, in the proleptic Gregorian calendar.
\<close>

datatype py_error =
    ValueError
  | FileExistsError string
  | FileNotFoundError string
  | NotADirectoryError string
  | IsADirectoryError string
  | PermissionError string
  | RenderError string

type_synonym date = "int \<times> int \<times> int"

definition ns_per_day :: int where
  "ns_per_day = 86400 * 1000000000"

definition is_leap :: "int \<Rightarrow> bool" where
  "is_leap y = (y mod 4 = 0 \<and> (y mod 100 \<noteq> 0 \<or> y mod 400 = 0))"

definition days_in_month :: "int \<Rightarrow> int \<Rightarrow> int" where
  "days_in_month y m =
     (if m = 2 then (if is_leap y then 29 else 28)
      else if m = 4 \<or> m = 6 \<or> m = 9 \<or> m = 11 then 30 else 31)"

definition valid_date :: "date \<Rightarrow> bool" where
  "valid_date dt = (case dt of (y, m, d) \<Rightarrow> 1 \<le> m \<and> m \<le> 12 \<and> 1 \<le> d \<and> d \<le> days_in_month y m)"

text \<open>The calendar day after a date.\<close>

definition next_day :: "date \<Rightarrow> date" where
  "next_day dt =
     (case dt of (y, m, d) \<Rightarrow>
        if d < days_in_month y m then (y, m, d + 1)
        else if m < 12 then (y, m + 1, 1)
        else (y + 1, 1, 1))"

text \<open>Days since 1970-01-01 of a date, and back, by 400-year eras starting in March.\<close>

definition days_from_civil :: "date \<Rightarrow> int" where
  "days_from_civil dt =
     (case dt of (y, m, d) \<Rightarrow>
        let y' = (if m \<le> 2 then y - 1 else y);
            era = y' div 400;
            yoe = y' - era * 400;
            doy = (153 * (if 2 < m then m - 3 else m + 9) + 2) div 5 + d - 1;
            doe = yoe * 365 + yoe div 4 - yoe div 100 + doy
        in era * 146097 + doe - 719468)"

definition civil_from_days :: "int \<Rightarrow> date" where
  "civil_from_days z =
     (let z' = z + 719468;
          era = z' div 146097;
          doe = z' - era * 146097;
          yoe = (doe - doe div 1460 + doe div 36524 - doe div 146096) div 365;
          doy = doe - (365 * yoe + yoe div 4 - yoe div 100);
          mp = (5 * doy + 2) div 153;
          d = doy - (153 * mp + 2) div 5 + 1;
          m = (if mp < 10 then mp + 3 else mp - 9);
          y = yoe + era * 400
      in (if m \<le> 2 then y + 1 else y, m, d))"

definition date_of_timestamp :: "int \<Rightarrow> date" where
  "date_of_timestamp ns = civil_from_days (ns div ns_per_day)"

definition time_of_day :: "int \<Rightarrow> int" where
  "time_of_day ns = ns mod ns_per_day"

text \<open>The date strings the script passes have the form \<^verbatim>\<open>YYYY-MM-DD\<close>.\<close>

definition parse_date :: "string \<Rightarrow> py_error + date" where
  "parse_date s =
     (if length s = 10 \<and> s ! 4 = CHR ''-'' \<and> s ! 7 = CHR ''-''
         \<and> list_all is_digit (take 4 s @ take 2 (drop 5 s) @ drop 8 s)
      then let dt = (int (nat_of_digits (take 4 s)),
                     int (nat_of_digits (take 2 (drop 5 s))),
                     int (nat_of_digits (drop 8 s)))
           in if valid_date dt then Inr dt else Inl ValueError
      else Inl ValueError)"

text \<open>
  \<^verbatim>\<open>pd.date_range(start=..., periods=n)\<close> with the default daily frequency: \<open>n\<close>
  timestamps, one day apart, from midnight of the start date.
\<close>

definition pd_date_range :: "string \<Rightarrow> nat \<Rightarrow> py_error + int list" where
  "pd_date_range start periods =
     (case parse_date start of
        Inl err \<Rightarrow> Inl err
      | Inr dt \<Rightarrow>
          Inr (map (\<lambda>i. days_from_civil dt * ns_per_day + int i * ns_per_day) [0..<periods]))"

subsection \<open>The random source\<close>

text \<open>
  The state of numpy's global generator is not part of the script: it is a parameter,
  the sequence of values its uniform sampler will return and the sequence of raw
  integers its index sampler will draw. A call consumes the values it returns.
\<close>

record random_state =
  uniform :: "nat \<Rightarrow> f64"
  raw_index :: "nat \<Rightarrow> nat"

definition np_random_rand :: "nat \<Rightarrow> random_state \<Rightarrow> f64 list \<times> random_state" where
  "np_random_rand n rs =
     (map (uniform rs) [0..<n], rs\<lparr>uniform := (\<lambda>k. uniform rs (k + n))\<rparr>)"

text \<open>
  \<^verbatim>\<open>np.random.choice(a, size)\<close>: \<open>size\<close> entries of \<open>a\<close>, each at an index drawn
  below \<open>len(a)\<close>; an empty \<open>a\<close> is a ValueError.
\<close>

definition np_random_choice ::
  "'a list \<Rightarrow> nat \<Rightarrow> random_state \<Rightarrow> py_error + ('a list \<times> random_state)" where
  "np_random_choice a n rs =
     (if a = [] then Inl ValueError
      else Inr (map (\<lambda>k. a ! (raw_index rs k mod length a)) [0..<n],
                rs\<lparr>raw_index := (\<lambda>k. raw_index rs (k + n))\<rparr>))"

subsection \<open>The table\<close>

datatype column =
    IntColumn "int list"
  | StrColumn "string list"
  | FloatColumn "f64 list"
  | DateColumn "int list"
  | BoolColumn "bool list"

fun column_length :: "column \<Rightarrow> nat" where
  "column_length (IntColumn xs) = length xs"
| "column_length (StrColumn xs) = length xs"
| "column_length (FloatColumn xs) = length xs"
| "column_length (DateColumn xs) = length xs"
| "column_length (BoolColumn xs) = length xs"

text \<open>A dict literal keeps its keys in the order written; the columns of the frame follow it.\<close>

record dataframe =
  columns :: "(string \<times> column) list"
  nrows :: nat

definition column_names :: "dataframe \<Rightarrow> string list" where
  "column_names df = map fst (columns df)"

definition get_column :: "dataframe \<Rightarrow> string \<Rightarrow> column option" where
  "get_column df name = map_of (columns df) name"

text \<open>\<^verbatim>\<open>pd.DataFrame(data)\<close> from a dict of columns: they must all have the same length.\<close>

definition DataFrame :: "(string \<times> column) list \<Rightarrow> py_error + dataframe" where
  "DataFrame d =
     (case d of
        [] \<Rightarrow> Inr \<lparr>columns = [], nrows = 0\<rparr>
      | (name, c) # rest \<Rightarrow>
          if list_all (\<lambda>(name', c'). column_length c' = column_length c) rest
          then Inr \<lparr>columns = d, nrows = column_length c\<rparr>
          else Inl ValueError)"

subsection \<open>The script\<close>

record gen_world =
  parquet_files :: "string \<rightharpoonup> dataframe"
  printed :: "string list"

definition to_parquet :: "dataframe \<Rightarrow> string \<Rightarrow> gen_world \<Rightarrow> gen_world" where
  "to_parquet df path w = w\<lparr>parquet_files := (parquet_files w)(path \<mapsto> df)\<rparr>"

definition print_gen :: "string \<Rightarrow> gen_world \<Rightarrow> gen_world" where
  "print_gen line w = w\<lparr>printed := printed w @ [line]\<rparr>"

text \<open>Lines 5 to 12: the dict \<^verbatim>\<open>data\<close>, its values evaluated in the order written.\<close>

definition data :: "random_state \<Rightarrow> py_error + (string \<times> column) list" where
  "data rs =
     (let ids = py_range 1 101;
          names = map (\<lambda>i. ''Item '' @ str_int i) (py_range 1 101);
          (draws, rs1) = np_random_rand 100 rs;
          vals = map (\<lambda>r. fmul r (f64_of_int 1000)) draws
      in case np_random_choice [''A'', ''B'', ''C'', ''D''] 100 rs1 of
           Inl err \<Rightarrow> Inl err
         | Inr (cats, rs2) \<Rightarrow>
             (case pd_date_range ''2023-01-01'' 100 of
                Inl err \<Rightarrow> Inl err
              | Inr dates \<Rightarrow>
                  (case np_random_choice [True, False] 100 rs2 of
                     Inl err \<Rightarrow> Inl err
                   | Inr (flags, rs3) \<Rightarrow>
                       Inr [(''id'', IntColumn ids),
                            (''name'', StrColumn names),
                            (''value'', FloatColumn vals),
                            (''category'', StrColumn cats),
                            (''date'', DateColumn dates),
                            (''is_active'', BoolColumn flags)])))"

text \<open>Line 14.\<close>

definition df :: "random_state \<Rightarrow> py_error + dataframe" where
  "df rs = (case data rs of Inl err \<Rightarrow> Inl err | Inr d \<Rightarrow> DataFrame d)"

text \<open>The whole script: an error ends it before anything is written or printed.\<close>

definition generate_sample_parquet :: "random_state \<Rightarrow> gen_world \<Rightarrow> py_error + gen_world" where
  "generate_sample_parquet rs w =
     (case df rs of
        Inl err \<Rightarrow> Inl err
      | Inr t \<Rightarrow>
          Inr (print_gen ''Sample Parquet file created successfully!''
                 (to_parquet t ''example_data_parquet.parquet'' w)))"

section \<open>Diagram renderer (visualize\_templates.py)\<close>

subsection \<open>Graph descriptions\<close>

text \<open>
  A \<^verbatim>\<open>Digraph\<close> collects the statements of its body in the order of the calls that
  add them. A statement sets attributes (of the graph, or the defaults of nodes or
  edges), declares a node, declares an edge, or is a nested subgraph. Keyword
  arguments are kept as written, a list of pairs.
\<close>

type_synonym attrs = "(string \<times> string) list"

datatype stmt =
    AttrStmt "string option" attrs
  | NodeStmt string "string option" attrs
  | EdgeStmt string string "string option" attrs
  | SubgraphStmt "string option" "stmt list"

record digraph =
  g_name :: "string option"
  g_comment :: "string option"
  g_body :: "stmt list"

definition Digraph :: "string \<Rightarrow> digraph" where
  "Digraph c = \<lparr>g_name = None, g_comment = Some c, g_body = []\<rparr>"

definition attr :: "string option \<Rightarrow> attrs \<Rightarrow> digraph \<Rightarrow> digraph" where
  "attr kw kvs g = g\<lparr>g_body := g_body g @ [AttrStmt kw kvs]\<rparr>"

definition node :: "string \<Rightarrow> string \<Rightarrow> attrs \<Rightarrow> digraph \<Rightarrow> digraph" where
  "node n label kvs g = g\<lparr>g_body := g_body g @ [NodeStmt n (Some label) kvs]\<rparr>"

definition edge :: "string \<Rightarrow> string \<Rightarrow> string option \<Rightarrow> digraph \<Rightarrow> digraph" where
  "edge t h label g = g\<lparr>g_body := g_body g @ [EdgeStmt t h label []]\<rparr>"

text \<open>
  \<^verbatim>\<open>with dot.subgraph(name=n) as c: ...\<close>: the block fills a fresh graph \<open>c\<close>, and
  leaving the block appends it to the body of \<open>dot\<close> as one nested statement.
\<close>

definition subgraph :: "string \<Rightarrow> (digraph \<Rightarrow> digraph) \<Rightarrow> digraph \<Rightarrow> digraph" where
  "subgraph n block g =
     (let c = block \<lparr>g_name = Some n, g_comment = None, g_body = []\<rparr>
      in g\<lparr>g_body := g_body g @ [SubgraphStmt (g_name c) (g_body c)]\<rparr>)"

text \<open>The graph \<^verbatim>\<open>dot\<close> of \<^verbatim>\<open>create_image_classifier_diagram\<close> when it is rendered.\<close>

definition image_classifier_dot :: digraph where
  "image_classifier_dot =
     (let dot = Digraph ''Image Classifier Architecture'';
          dot = attr (Some ''graph'') [(''rankdir'', ''TB''), (''size'', ''8,8''), (''dpi'', ''300'')] dot;
          dot = attr (Some ''node'') [(''shape'', ''box''), (''style'', ''filled''),
                  (''color'', ''lightblue''), (''fontname'', ''Arial'')] dot;
          dot = attr (Some ''edge'') [(''fontname'', ''Arial'')] dot;
          dot = node ''config'' ''Configuration\<newline>(config.rs)'' [(''shape'', ''note''), (''color'', ''lightgreen'')] dot;
          dot = node ''data'' ''Data Processing\<newline>(data.rs)'' [(''shape'', ''box'')] dot;
          dot = node ''model'' ''CNN Model\<newline>(model.rs)'' [(''shape'', ''box'')] dot;
          dot = node ''main'' ''Main Application\<newline>(main.rs)'' [(''shape'', ''box'')] dot;
          dot = subgraph ''cluster_dataflow'' (\<lambda>c.
                  let c = attr None [(''label'', ''Data Flow''), (''style'', ''dashed'')] c;
                      c = node ''images'' ''Input Images'' [(''shape'', ''folder''), (''color'', ''lightyellow'')] c;
                      c = node ''tensors'' ''Image Tensors'' [(''shape'', ''box3d''), (''color'', ''lightgrey'')] c;
                      c = node ''features'' ''Feature Maps'' [(''shape'', ''box3d''), (''color'', ''lightgrey'')] c;
                      c = node ''predictions'' ''Class Predictions'' [(''shape'', ''box3d''), (''color'', ''lightgrey'')] c;
                      c = edge ''images'' ''tensors'' None c;
                      c = edge ''tensors'' ''features'' None c;
                      c = edge ''features'' ''predictions'' None c
                  in c) dot;
          dot = edge ''config'' ''data'' (Some ''Parameters'') dot;
          dot = edge ''config'' ''model'' (Some ''Architecture'') dot;
          dot = edge ''config'' ''main'' (Some ''Training Settings'') dot;
          dot = edge ''data'' ''tensors'' (Some ''Process'') dot;
          dot = edge ''model'' ''features'' (Some ''Extract'') dot;
          dot = edge ''main'' ''predictions'' (Some ''Output'') dot
      in dot)"

text \<open>The graph \<^verbatim>\<open>dot\<close> of \<^verbatim>\<open>create_text_analyzer_diagram\<close> when it is rendered.\<close>

definition text_analyzer_dot :: digraph where
  "text_analyzer_dot =
     (let dot = Digraph ''Text Analyzer Architecture'';
          dot = attr (Some ''graph'') [(''rankdir'', ''TB''), (''size'', ''8,8''), (''dpi'', ''300'')] dot;
          dot = attr (Some ''node'') [(''shape'', ''box''), (''style'', ''filled''),
                  (''color'', ''lightblue''), (''fontname'', ''Arial'')] dot;
          dot = attr (Some ''edge'') [(''fontname'', ''Arial'')] dot;
          dot = node ''config'' ''Configuration\<newline>(config.rs)'' [(''shape'', ''note''), (''color'', ''lightgreen'')] dot;
          dot = node ''data'' ''Text Processing\<newline>(data.rs)'' [(''shape'', ''box'')] dot;
          dot = node ''model'' ''LSTM Model\<newline>(model.rs)'' [(''shape'', ''box'')] dot;
          dot = node ''main'' ''Main Application\<newline>(main.rs)'' [(''shape'', ''box'')] dot;
          dot = subgraph ''cluster_dataflow'' (\<lambda>c.
                  let c = attr None [(''label'', ''Data Flow''), (''style'', ''dashed'')] c;
                      c = node ''text'' ''Input Text'' [(''shape'', ''folder''), (''color'', ''lightyellow'')] c;
                      c = node ''tokens'' ''Token Sequences'' [(''shape'', ''box3d''), (''color'', ''lightgrey'')] c;
                      c = node ''embeddings'' ''Word Embeddings'' [(''shape'', ''box3d''), (''color'', ''lightgrey'')] c;
                      c = node ''sentiment'' ''Sentiment Prediction'' [(''shape'', ''box3d''), (''color'', ''lightgrey'')] c;
                      c = edge ''text'' ''tokens'' None c;
                      c = edge ''tokens'' ''embeddings'' None c;
                      c = edge ''embeddings'' ''sentiment'' None c
                  in c) dot;
          dot = edge ''config'' ''data'' (Some ''Parameters'') dot;
          dot = edge ''config'' ''model'' (Some ''Architecture'') dot;
          dot = edge ''config'' ''main'' (Some ''Training Settings'') dot;
          dot = edge ''data'' ''tokens'' (Some ''Tokenize'') dot;
          dot = edge ''model'' ''embeddings'' (Some ''Embed'') dot;
          dot = edge ''main'' ''sentiment'' (Some ''Output'') dot
      in dot)"

text \<open>The graph \<^verbatim>\<open>dot\<close> of \<^verbatim>\<open>create_data_predictor_diagram\<close> when it is rendered.\<close>

definition data_predictor_dot :: digraph where
  "data_predictor_dot =
     (let dot = Digraph ''Data Predictor Architecture'';
          dot = attr (Some ''graph'') [(''rankdir'', ''TB''), (''size'', ''8,8''), (''dpi'', ''300'')] dot;
          dot = attr (Some ''node'') [(''shape'', ''box''), (''style'', ''filled''),
                  (''color'', ''lightblue''), (''fontname'', ''Arial'')] dot;
          dot = attr (Some ''edge'') [(''fontname'', ''Arial'')] dot;
          dot = node ''config'' ''Configuration\<newline>(config.rs)'' [(''shape'', ''note''), (''color'', ''lightgreen'')] dot;
          dot = node ''data'' ''Data Processing\<newline>(data.rs)'' [(''shape'', ''box'')] dot;
          dot = node ''model'' ''Neural Network\<newline>(model.rs)'' [(''shape'', ''box'')] dot;
          dot = node ''main'' ''Main Application\<newline>(main.rs)'' [(''shape'', ''box'')] dot;
          dot = subgraph ''cluster_dataflow'' (\<lambda>c.
                  let c = attr None [(''label'', ''Data Flow''), (''style'', ''dashed'')] c;
                      c = node ''csv'' ''CSV Data'' [(''shape'', ''folder''), (''color'', ''lightyellow'')] c;
                      c = node ''features'' ''Numerical Features'' [(''shape'', ''box3d''), (''color'', ''lightgrey'')] c;
                      c = node ''normalized'' ''Normalized Features'' [(''shape'', ''box3d''), (''color'', ''lightgrey'')] c;
                      c = node ''prediction'' ''Value Prediction'' [(''shape'', ''box3d''), (''color'', ''lightgrey'')] c;
                      c = edge ''csv'' ''features'' None c;
                      c = edge ''features'' ''normalized'' None c;
                      c = edge ''normalized'' ''prediction'' None c
                  in c) dot;
          dot = edge ''config'' ''data'' (Some ''Parameters'') dot;
          dot = edge ''config'' ''model'' (Some ''Architecture'') dot;
          dot = edge ''config'' ''main'' (Some ''Training Settings'') dot;
          dot = edge ''data'' ''normalized'' (Some ''Normalize'') dot;
          dot = edge ''model'' ''prediction'' (Some ''Predict'') dot;
          dot = edge ''main'' ''prediction'' (Some ''Output'') dot
      in dot)"

text \<open>The graph \<^verbatim>\<open>dot\<close> of \<^verbatim>\<open>create_templates_overview\<close> when it is rendered.\<close>

definition templates_overview_dot :: digraph where
  "templates_overview_dot =
     (let dot = Digraph ''Burn Templates Overview'';
          dot = attr (Some ''graph'') [(''rankdir'', ''LR''), (''size'', ''10,8''), (''dpi'', ''300'')] dot;
          dot = attr (Some ''node'') [(''fontname'', ''Arial'')] dot;
          dot = attr (Some ''edge'') [(''fontname'', ''Arial'')] dot;
          dot = node ''burn'' ''Burn Framework'' [(''shape'', ''box''), (''style'', ''filled''), (''color'', ''orange'')] dot;
          dot = node ''image'' ''Image Classifier'' [(''shape'', ''box''), (''style'', ''filled''), (''color'', ''skyblue'')] dot;
          dot = node ''text'' ''Text Analyzer'' [(''shape'', ''box''), (''style'', ''filled''), (''color'', ''lightgreen'')] dot;
          dot = node ''data'' ''Data Predictor'' [(''shape'', ''box''), (''style'', ''filled''), (''color'', ''lightpink'')] dot;
          dot = subgraph ''cluster_image'' (\<lambda>c.
                  let c = attr None [(''label'', ''Image Classifier Features''), (''style'', ''dashed'')] c;
                      c = node ''cnn'' ''CNN Architecture'' [(''shape'', ''ellipse'')] c;
                      c = node ''augment'' ''Image Augmentation'' [(''shape'', ''ellipse'')] c;
                      c = node ''classify'' ''Multi-class Classification'' [(''shape'', ''ellipse'')] c
                  in c) dot;
          dot = subgraph ''cluster_text'' (\<lambda>c.
                  let c = attr None [(''label'', ''Text Analyzer Features''), (''style'', ''dashed'')] c;
                      c = node ''lstm'' ''LSTM Architecture'' [(''shape'', ''ellipse'')] c;
                      c = node ''embed'' ''Word Embeddings'' [(''shape'', ''ellipse'')] c;
                      c = node ''sentiment'' ''Sentiment Analysis'' [(''shape'', ''ellipse'')] c
                  in c) dot;
          dot = subgraph ''cluster_data'' (\<lambda>c.
                  let c = attr None [(''label'', ''Data Predictor Features''), (''style'', ''dashed'')] c;
                      c = node ''mlp'' ''MLP Architecture'' [(''shape'', ''ellipse'')] c;
                      c = node ''normalize'' ''Data Normalization'' [(''shape'', ''ellipse'')] c;
                      c = node ''regression'' ''Regression Analysis'' [(''shape'', ''ellipse'')] c
                  in c) dot;
          dot = edge ''burn'' ''image'' None dot;
          dot = edge ''burn'' ''text'' None dot;
          dot = edge ''burn'' ''data'' None dot;
          dot = edge ''image'' ''cnn'' None dot;
          dot = edge ''image'' ''augment'' None dot;
          dot = edge ''image'' ''classify'' None dot;
          dot = edge ''text'' ''lstm'' None dot;
          dot = edge ''text'' ''embed'' None dot;
          dot = edge ''text'' ''sentiment'' None dot;
          dot = edge ''data'' ''mlp'' None dot;
          dot = edge ''data'' ''normalize'' None dot;
          dot = edge ''data'' ''regression'' None dot
      in dot)"

text \<open>Reading a body: its nested groupings, its own nodes and its own edges, in order.\<close>

fun subgraphs_of :: "stmt list \<Rightarrow> (string option \<times> stmt list) list" where
  "subgraphs_of [] = []"
| "subgraphs_of (SubgraphStmt n b # ss) = (n, b) # subgraphs_of ss"
| "subgraphs_of (s # ss) = subgraphs_of ss"

fun nodes_of :: "stmt list \<Rightarrow> string list" where
  "nodes_of [] = []"
| "nodes_of (NodeStmt n l kvs # ss) = n # nodes_of ss"
| "nodes_of (s # ss) = nodes_of ss"

fun edges_of :: "stmt list \<Rightarrow> (string \<times> string \<times> string option \<times> attrs) list" where
  "edges_of [] = []"
| "edges_of (EdgeStmt t h l kvs # ss) = (t, h, l, kvs) # edges_of ss"
| "edges_of (s # ss) = edges_of ss"

fun graph_attrs_of :: "stmt list \<Rightarrow> attrs" where
  "graph_attrs_of [] = []"
| "graph_attrs_of (AttrStmt None kvs # ss) = kvs @ graph_attrs_of ss"
| "graph_attrs_of (s # ss) = graph_attrs_of ss"

text \<open>
  A chain over the stages \<open>ns\<close>: one unlabeled, unstyled edge from each stage to the
  next, and nothing else.
\<close>

definition chain_edges :: "string list \<Rightarrow> (string \<times> string \<times> string option \<times> attrs) list" where
  "chain_edges ns = map (\<lambda>(a, b). (a, b, None, [])) (zip ns (tl ns))"

text \<open>
  The graph \<open>g\<close> has exactly one nested grouping; it is labeled \<^verbatim>\<open>Data Flow\<close>, nests no
  further grouping, declares exactly the stages \<open>ns\<close> (three or four, all different), and
  its edges are exactly the chain over them; and no edge declared outside the grouping
  joins two of its stages.
\<close>

definition data_flow_chain :: "digraph \<Rightarrow> string list \<Rightarrow> bool" where
  "data_flow_chain g ns =
     (case subgraphs_of (g_body g) of
        [(n, b)] \<Rightarrow>
          map_of (graph_attrs_of b) ''label'' = Some ''Data Flow'' \<and>
          subgraphs_of b = [] \<and>
          nodes_of b = ns \<and> 3 \<le> length ns \<and> length ns \<le> 4 \<and> distinct ns \<and>
          edges_of b = chain_edges ns \<and>
          list_all (\<lambda>(t, h, l, kvs). \<not> (t \<in> set ns \<and> h \<in> set ns)) (edges_of (g_body g))
      | other \<Rightarrow> False)"

subsection \<open>The file system, the working directory and the output\<close>

text \<open>
  What the renderer touches outside itself: the file system (a map from paths, lists
  of components, to entries), the working directory of the process, the lines printed,
  the invocations of the layout program, each recorded by the path of the source
  file handed to it, and the calls that the operating system refuses.
\<close>

datatype fs_entry = Directory | DotFile digraph | PngFile string | DataFile string

type_synonym path = "string list"

text \<open>
  The calls by which the script and the library reach the file system. The operating
  system may refuse any of them for a reason of its own (no permission on a directory,
  a read-only or full device): \<open>os_fault\<close> gives the exception a call raises then, and
  \<open>None\<close> for a call that goes ahead on the file system as it stands.
\<close>

datatype os_call = Makedirs path | Chdir path | Write path | Remove path

record world =
  fs :: "path \<rightharpoonup> fs_entry"
  cwd :: path
  stdout :: "string list"
  dot_calls :: "path list"
  os_fault :: "os_call \<Rightarrow> py_error option"

text \<open>
  The layout program is not part of the script: it is a parameter, which for a graph
  gives the bytes of the image or fails with a message (no executable, a nonzero exit).
\<close>

type_synonym backend = "digraph \<Rightarrow> string + string"

text \<open>An action runs in a world and leaves a world; it may raise an exception.\<close>

type_synonym action = "world \<Rightarrow> py_error option \<times> world"

definition seq :: "action \<Rightarrow> action \<Rightarrow> action" where
  "seq a b w = (case a w of (Some err, w') \<Rightarrow> (Some err, w') | (None, w') \<Rightarrow> b w')"

definition print :: "string \<Rightarrow> action" where
  "print line w = (None, w\<lparr>stdout := stdout w @ [line]\<rparr>)"

text \<open>\<^verbatim>\<open>repr\<close> of a file name and \<^verbatim>\<open>str\<close> of an exception, as an f-string formats it.\<close>

definition repr :: "string \<Rightarrow> string" where
  "repr n = [CHR 0x27] @ n @ [CHR 0x27]"

fun str_error :: "py_error \<Rightarrow> string" where
  "str_error ValueError = []"
| "str_error (FileExistsError n) = ''[Errno 17] File exists: '' @ repr n"
| "str_error (FileNotFoundError n) = ''[Errno 2] No such file or directory: '' @ repr n"
| "str_error (NotADirectoryError n) = ''[Errno 20] Not a directory: '' @ repr n"
| "str_error (IsADirectoryError n) = ''[Errno 21] Is a directory: '' @ repr n"
| "str_error (PermissionError n) = ''[Errno 13] Permission denied: '' @ repr n"
| "str_error (RenderError msg) = msg"

text \<open>
  \<^verbatim>\<open>os.makedirs(name, exist_ok=...)\<close> for a name of one component. When the operating system
  refuses the call, its exception is raised (a PermissionError in a directory that
  cannot be written). Otherwise an existing directory is accepted when \<open>exist_ok\<close>
  holds, anything else in the way is a FileExistsError, and an absent name is created.
\<close>

definition os_makedirs :: "string \<Rightarrow> bool \<Rightarrow> action" where
  "os_makedirs n exist_ok w =
     (case os_fault w (Makedirs (cwd w @ [n])) of
        Some err \<Rightarrow> (Some err, w)
      | None \<Rightarrow>
          (case fs w (cwd w @ [n]) of
             None \<Rightarrow> (None, w\<lparr>fs := (fs w)(cwd w @ [n] \<mapsto> Directory)\<rparr>)
           | Some Directory \<Rightarrow> if exist_ok then (None, w) else (Some (FileExistsError n), w)
           | Some other \<Rightarrow> (Some (FileExistsError n), w)))"

definition os_chdir :: "string \<Rightarrow> action" where
  "os_chdir n w =
     (case os_fault w (Chdir (cwd w @ [n])) of
        Some err \<Rightarrow> (Some err, w)
      | None \<Rightarrow>
          (case fs w (cwd w @ [n]) of
             None \<Rightarrow> (Some (FileNotFoundError n), w)
           | Some Directory \<Rightarrow> (None, w\<lparr>cwd := cwd w @ [n]\<rparr>)
           | Some other \<Rightarrow> (Some (NotADirectoryError n), w)))"

definition os_remove :: "string \<Rightarrow> action" where
  "os_remove n w =
     (case os_fault w (Remove (cwd w @ [n])) of
        Some err \<Rightarrow> (Some err, w)
      | None \<Rightarrow>
          (case fs w (cwd w @ [n]) of
             None \<Rightarrow> (Some (FileNotFoundError n), w)
           | Some Directory \<Rightarrow> (Some (IsADirectoryError n), w)
           | Some other \<Rightarrow> (None, w\<lparr>fs := (fs w)(cwd w @ [n] := None)\<rparr>)))"

text \<open>\<^verbatim>\<open>Digraph.save\<close>: the source of the graph written to a file of the given name.\<close>

definition save :: "digraph \<Rightarrow> string \<Rightarrow> action" where
  "save g n w =
     (case os_fault w (Write (cwd w @ [n])) of
        Some err \<Rightarrow> (Some err, w)
      | None \<Rightarrow>
          (case fs w (cwd w @ [n]) of
             Some Directory \<Rightarrow> (Some (IsADirectoryError n), w)
           | other \<Rightarrow> (None, w\<lparr>fs := (fs w)(cwd w @ [n] \<mapsto> DotFile g)\<rparr>)))"

text \<open>
  The layout program run on the saved source, writing \<^verbatim>\<open>name.format\<close> beside it. It is
  invoked whatever the outcome; it fails when the backend does, or when the image
  cannot be written: the operating system refuses, or a directory has its name.
\<close>

definition run_dot :: "backend \<Rightarrow> digraph \<Rightarrow> string \<Rightarrow> string \<Rightarrow> action" where
  "run_dot be g n format w =
     (let w1 = w\<lparr>dot_calls := dot_calls w @ [cwd w @ [n]]\<rparr>;
          out = n @ ''.'' @ format
      in case be g of
           Inl msg \<Rightarrow> (Some (RenderError msg), w1)
         | Inr img \<Rightarrow>
             (case os_fault w1 (Write (cwd w1 @ [out])) of
                Some err \<Rightarrow> (Some (RenderError (str_error err)), w1)
              | None \<Rightarrow>
                  (case fs w1 (cwd w1 @ [out]) of
                     Some Directory \<Rightarrow> (Some (RenderError (''Is a directory: '' @ repr out)), w1)
                   | other \<Rightarrow> (None, w1\<lparr>fs := (fs w1)(cwd w1 @ [out] \<mapsto> PngFile img)\<rparr>))))"

text \<open>\<^verbatim>\<open>dot.render(name, format=..., cleanup=True)\<close>: save, lay out, remove the source.\<close>

definition render :: "backend \<Rightarrow> digraph \<Rightarrow> string \<Rightarrow> string \<Rightarrow> action" where
  "render be g n format = seq (save g n) (seq (run_dot be g n format) (os_remove n))"

subsection \<open>The four diagram routines and the orchestration\<close>

definition create_image_classifier_diagram :: "backend \<Rightarrow> action" where
  "create_image_classifier_diagram be =
     seq (render be image_classifier_dot ''burn-image-classifier-diagram'' ''png'')
         (print ''Created image classifier diagram: burn-image-classifier-diagram.png'')"

definition create_text_analyzer_diagram :: "backend \<Rightarrow> action" where
  "create_text_analyzer_diagram be =
     seq (render be text_analyzer_dot ''burn-text-analyzer-diagram'' ''png'')
         (print ''Created text analyzer diagram: burn-text-analyzer-diagram.png'')"

definition create_data_predictor_diagram :: "backend \<Rightarrow> action" where
  "create_data_predictor_diagram be =
     seq (render be data_predictor_dot ''burn-data-predictor-diagram'' ''png'')
         (print ''Created data predictor diagram: burn-data-predictor-diagram.png'')"

definition create_templates_overview :: "backend \<Rightarrow> action" where
  "create_templates_overview be =
     seq (render be templates_overview_dot ''burn-templates-overview'' ''png'')
         (print ''Created templates overview: burn-templates-overview.png'')"

text \<open>The body of the \<^verbatim>\<open>try\<close> block of \<^verbatim>\<open>main\<close>.\<close>

definition main_try :: "backend \<Rightarrow> action" where
  "main_try be =
     seq (os_makedirs ''diagrams'' True)
    (seq (os_chdir ''diagrams'')
    (seq (create_image_classifier_diagram be)
    (seq (create_text_analyzer_diagram be)
    (seq (create_data_predictor_diagram be)
    (seq (create_templates_overview be)
         (print (''All diagrams created successfully in the '' @ repr ''diagrams'' @ '' directory'')))))))"

text \<open>
  \<^verbatim>\<open>main\<close>: an exception of the block is caught, reported on the output, and turned
  into the return value 1; otherwise the return value is 0.
\<close>

definition main :: "backend \<Rightarrow> world \<Rightarrow> int \<times> world" where
  "main be w =
     (case main_try be w of
        (Some err, w') \<Rightarrow> (1, snd (print (''Error creating diagrams: '' @ str_error err) w'))
      | (None, w') \<Rightarrow> (0, w'))"

text \<open>
  One run of the program: \<^verbatim>\<open>sys.exit(main())\<close> in a fresh process, started in the
  directory \<open>start\<close> with an empty output, on the file system as it stands, under an
  operating system that refuses the calls \<open>faults\<close> says.
\<close>

definition run_program ::
  "backend \<Rightarrow> (os_call \<Rightarrow> py_error option) \<Rightarrow> path \<Rightarrow> (path \<rightharpoonup> fs_entry) \<Rightarrow> int \<times> world" where
  "run_program be faults start files =
     main be \<lparr>fs = files, cwd = start, stdout = [], dot_calls = [], os_fault = faults\<rparr>"

subsection \<open>What a run depends on, and what it leaves\<close>

text \<open>
  The four diagrams in the order in which \<^verbatim>\<open>main\<close> calls their routines, each with the
  file name it is rendered under and the line its routine prints.
\<close>

definition diagrams :: "(digraph \<times> string \<times> string) list" where
  "diagrams =
     [(image_classifier_dot, ''burn-image-classifier-diagram'',
         ''Created image classifier diagram: burn-image-classifier-diagram.png''),
      (text_analyzer_dot, ''burn-text-analyzer-diagram'',
         ''Created text analyzer diagram: burn-text-analyzer-diagram.png''),
      (data_predictor_dot, ''burn-data-predictor-diagram'',
         ''Created data predictor diagram: burn-data-predictor-diagram.png''),
      (templates_overview_dot, ''burn-templates-overview'',
         ''Created templates overview: burn-templates-overview.png'')]"

text \<open>
  The routines of a list of diagrams run one after the other, each rendering its graph
  and printing its line, as the body of \<^verbatim>\<open>main\<close> runs its four.
\<close>

fun create_diagrams :: "backend \<Rightarrow> (digraph \<times> string \<times> string) list \<Rightarrow> action" where
  "create_diagrams be [] w = (None, w)"
| "create_diagrams be ((g, n, msg) # rest) w =
     seq (seq (render be g n ''png'') (print msg)) (create_diagrams be rest) w"

text \<open>The names of the files the routines of a list of diagrams write: source and image.\<close>

definition file_names :: "(digraph \<times> string \<times> string) list \<Rightarrow> string list" where
  "file_names ds = concat (map (\<lambda>(g, n, msg). [n, n @ ''.png'']) ds)"

text \<open>The image the layout program gives for a graph (empty when it fails).\<close>

definition the_image :: "backend \<Rightarrow> digraph \<Rightarrow> string" where
  "the_image be g = (case be g of Inl msg \<Rightarrow> [] | Inr img \<Rightarrow> img)"

text \<open>
  What rendering \<open>g\<close> under the name \<open>n\<close> needs in the directory \<open>dir\<close>: the source
  file may be written and no directory is in its place, the layout program succeeds on
  \<open>g\<close>, the image may be written and no directory is in its place, and the source file
  may be removed.
\<close>

definition can_render ::
  "backend \<Rightarrow> (os_call \<Rightarrow> py_error option) \<Rightarrow> (path \<rightharpoonup> fs_entry) \<Rightarrow> path \<Rightarrow>
     digraph \<times> string \<times> string \<Rightarrow> bool" where
  "can_render be faults files dir d =
     (case d of (g, n, msg) \<Rightarrow>
        faults (Write (dir @ [n])) = None \<and>
        files (dir @ [n]) \<noteq> Some Directory \<and>
        (case be g of Inl err \<Rightarrow> False | Inr img \<Rightarrow> True) \<and>
        faults (Write (dir @ [n @ ''.png''])) = None \<and>
        files (dir @ [n @ ''.png'']) \<noteq> Some Directory \<and>
        faults (Remove (dir @ [n])) = None)"

text \<open>
  The world a routine leaves when it succeeds: the image written, the source file gone,
  one invocation of the layout program recorded, one line printed.
\<close>

definition after_diagram :: "backend \<Rightarrow> world \<Rightarrow> digraph \<times> string \<times> string \<Rightarrow> world" where
  "after_diagram be w d =
     (case d of (g, n, msg) \<Rightarrow>
        w\<lparr>fs := (fs w)(cwd w @ [n] := None, cwd w @ [n @ ''.png''] \<mapsto> PngFile (the_image be g)),
          dot_calls := dot_calls w @ [cwd w @ [n]],
          stdout := stdout w @ [msg]\<rparr>)"

text \<open>The output directory of a run started in the world \<open>w\<close>.\<close>

definition output_dir :: "world \<Rightarrow> path" where
  "output_dir w = cwd w @ [''diagrams'']"

text \<open>
  What entering the output directory needs: the operating system refuses neither its
  creation nor the change of directory, and its name is free or that of a directory.
\<close>

definition can_enter :: "world \<Rightarrow> bool" where
  "can_enter w =
     (os_fault w (Makedirs (output_dir w)) = None \<and>
      os_fault w (Chdir (output_dir w)) = None \<and>
      (fs w (output_dir w) = None \<or> fs w (output_dir w) = Some Directory))"

text \<open>
  What a run needs to go through: the output directory can be entered, and every
  diagram can be rendered in it.
\<close>

definition all_ok :: "backend \<Rightarrow> world \<Rightarrow> bool" where
  "all_ok be w =
     (can_enter w \<and> list_all (can_render be (os_fault w) (fs w) (output_dir w)) diagrams)"

text \<open>The world once the output directory is ensured and entered.\<close>

definition entered :: "world \<Rightarrow> world" where
  "entered w = w\<lparr>fs := (fs w)(output_dir w \<mapsto> Directory), cwd := output_dir w\<rparr>"

text \<open>The last line a run prints when it goes through, and the line it prints for an exception.\<close>

definition success_line :: string where
  "success_line = ''All diagrams created successfully in the '' @ repr ''diagrams'' @ '' directory''"

definition error_line :: "py_error \<Rightarrow> string" where
  "error_line err = ''Error creating diagrams: '' @ str_error err"

section \<open>Properties of the sample data generator\<close>

lemma py_range_eq: "py_range a b = map (\<lambda>i. a + int i) [0..<nat (b - a)]"
proof (induction a b rule: py_range.induct)
  case (1 start stop)
  show ?case
  proof (cases "start < stop")
    case True
    then have n: "nat (stop - start) = Suc (nat (stop - (start + 1)))" by simp
    have "py_range start stop = start # py_range (start + 1) stop"
      using True by (simp add: py_range.simps [of start stop])
    also have "\<dots> = start # map (\<lambda>i. start + 1 + int i) [0..<nat (stop - (start + 1))]"
      using 1 True by simp
    also have "\<dots> = map (\<lambda>i. start + int i) [0..<nat (stop - start)]"
      unfolding n by (simp add: upt_conv_Cons map_Suc_upt [symmetric] del: upt_Suc)
    finally show ?thesis .
  next
    case False
    then show ?thesis by (simp add: py_range.simps [of start stop])
  qed
qed

lemma py_range_ids: "py_range 1 101 = map (\<lambda>i. 1 + int i) [0..<100]"
  by (simp add: py_range_eq)

lemma parse_date_start: "parse_date ''2023-01-01'' = Inr (2023, 1, 1)"
  by (simp add: parse_date_def is_digit_def nat_of_digits_def digit_val_def valid_date_def
      days_in_month_def Let_def)

lemma days_from_civil_start: "days_from_civil (2023, 1, 1) = 19358"
  by (simp add: days_from_civil_def Let_def)

lemma pd_date_range_start:
  "pd_date_range ''2023-01-01'' n = Inr (map (\<lambda>i. (19358 + int i) * ns_per_day) [0..<n])"
  by (simp add: pd_date_range_def parse_date_start days_from_civil_start algebra_simps)

lemma data_eq:
  "data rs = Inr
     [(''id'', IntColumn (py_range 1 101)),
      (''name'', StrColumn (map (\<lambda>i. ''Item '' @ str_int i) (py_range 1 101))),
      (''value'', FloatColumn (map (\<lambda>k. fmul (uniform rs k) (f64_of_int 1000)) [0..<100])),
      (''category'', StrColumn (map (\<lambda>k. [''A'', ''B'', ''C'', ''D''] ! (raw_index rs k mod 4)) [0..<100])),
      (''date'', DateColumn (map (\<lambda>i. (19358 + int i) * ns_per_day) [0..<100])),
      (''is_active'', BoolColumn (map (\<lambda>k. [True, False] ! (raw_index rs (k + 100) mod 2)) [0..<100]))]"
proof -
  have two: "length [True, False] = 2" and four: "length [''A'', ''B'', ''C'', ''D''] = 4"
    by simp_all
  show ?thesis
    unfolding data_def np_random_rand_def np_random_choice_def pd_date_range_start Let_def
      two four
    by (simp add: comp_def del: upt_Suc One_nat_def length_Cons)
qed

lemma length_py_range_ids: "length (py_range 1 101) = 100"
  by (simp add: py_range_eq)

lemma df_eq:
  "df rs = Inr \<lparr>columns =
     [(''id'', IntColumn (py_range 1 101)),
      (''name'', StrColumn (map (\<lambda>i. ''Item '' @ str_int i) (py_range 1 101))),
      (''value'', FloatColumn (map (\<lambda>k. fmul (uniform rs k) (f64_of_int 1000)) [0..<100])),
      (''category'', StrColumn (map (\<lambda>k. [''A'', ''B'', ''C'', ''D''] ! (raw_index rs k mod 4)) [0..<100])),
      (''date'', DateColumn (map (\<lambda>i. (19358 + int i) * ns_per_day) [0..<100])),
      (''is_active'', BoolColumn (map (\<lambda>k. [True, False] ! (raw_index rs (k + 100) mod 2)) [0..<100]))],
     nrows = 100\<rparr>"
  by (simp add: df_def data_eq DataFrame_def length_py_range_ids del: upt_Suc)

lemma get_column_df:
  "\<exists>t. df rs = Inr t \<and>
     get_column t ''id'' = Some (IntColumn (py_range 1 101)) \<and>
     get_column t ''name'' = Some (StrColumn (map (\<lambda>i. ''Item '' @ str_int i) (py_range 1 101))) \<and>
     get_column t ''value'' = Some (FloatColumn (map (\<lambda>k. fmul (uniform rs k) (f64_of_int 1000)) [0..<100])) \<and>
     get_column t ''category'' = Some (StrColumn (map (\<lambda>k. [''A'', ''B'', ''C'', ''D''] ! (raw_index rs k mod 4)) [0..<100])) \<and>
     get_column t ''date'' = Some (DateColumn (map (\<lambda>i. (19358 + int i) * ns_per_day) [0..<100])) \<and>
     get_column t ''is_active'' = Some (BoolColumn (map (\<lambda>k. [True, False] ! (raw_index rs (k + 100) mod 2)) [0..<100]))"
  by (simp add: df_eq get_column_def del: upt_Suc)

lemma py_range_ids_upt: "py_range 1 101 = map int [1..<101]"
proof -
  have "map int [1..<101] = map (\<lambda>i. 1 + int i) [0..<100]"
    by (rule nth_equalityI) (simp_all del: upt_Suc)
  then show ?thesis by (simp add: py_range_ids)
qed

text \<open>
  Claim C2. Whatever the random source, the table is built and its id column is the
  sequence 1, 2, ..., 100: strictly ascending, hence without duplicates, and without
  gaps (its entries are exactly the integers from 1 to 100).
\<close>

theorem id_column_sequence:
  "\<exists>t ids. df rs = Inr t \<and> get_column t ''id'' = Some (IntColumn ids) \<and>
     ids = map int [1..<101] \<and> length ids = 100 \<and>
     sorted_wrt (<) ids \<and> distinct ids \<and> set ids = {1..100}"
proof -
  obtain t where t: "df rs = Inr t" "get_column t ''id'' = Some (IntColumn (py_range 1 101))"
    using get_column_df [of rs] by blast
  have s: "sorted_wrt (<) (map int [1..<101])"
    by (simp add: sorted_wrt_map del: upt_Suc)
  have d: "distinct (map int [1..<101])"
    by (simp add: distinct_map del: upt_Suc)
  have e: "set (map int [1..<101]) = {1..100}"
  proof -
    have "int ` {1..<101} = {1..100}"
    proof (rule set_eqI)
      fix x :: int
      show "x \<in> int ` {1..<101} \<longleftrightarrow> x \<in> {1..100}"
      proof
        assume "x \<in> int ` {1..<101}"
        then show "x \<in> {1..100}" by auto
      next
        assume "x \<in> {1..100}"
        then have "x = int (nat x)" "nat x \<in> {1..<101}" by auto
        then show "x \<in> int ` {1..<101}" by blast
      qed
    qed
    then show ?thesis by (simp del: upt_Suc)
  qed
  show ?thesis
    using t s d e by (simp add: py_range_ids_upt del: upt_Suc)
qed

lemma digit_val_digit_char: "d < 10 \<Longrightarrow> digit_val (digit_char d) = d"
  by (simp add: digit_val_def digit_char_def)

lemma is_digit_digit_char: "d < 10 \<Longrightarrow> is_digit (digit_char d)"
  by (simp add: is_digit_def digit_char_def)

lemma nat_of_digits_snoc: "nat_of_digits (s @ [c]) = 10 * nat_of_digits s + digit_val c"
  by (simp add: nat_of_digits_def)

lemma nat_of_digits_str_nat: "nat_of_digits (str_nat n) = n"
proof (induction n rule: str_nat.induct)
  case (1 n)
  show ?case
  proof (cases "n < 10")
    case True
    then show ?thesis
      by (simp add: str_nat.simps [of n] nat_of_digits_def digit_val_digit_char)
  next
    case False
    then have "nat_of_digits (str_nat n) = 10 * nat_of_digits (str_nat (n div 10)) + n mod 10"
      by (simp add: str_nat.simps [of n] nat_of_digits_snoc digit_val_digit_char)
    also have "\<dots> = 10 * (n div 10) + n mod 10"
      using 1 False by simp
    finally show ?thesis by simp
  qed
qed

lemma digits_str_nat: "list_all is_digit (str_nat n)"
proof (induction n rule: str_nat.induct)
  case (1 n)
  show ?case
  proof (cases "n < 10")
    case True
    then show ?thesis by (simp add: str_nat.simps [of n] is_digit_digit_char)
  next
    case False
    with 1 show ?thesis by (simp add: str_nat.simps [of n] is_digit_digit_char)
  qed
qed

lemma str_nat_nonempty: "str_nat n \<noteq> []"
  by (simp add: str_nat.simps [of n])

lemma str_nat_no_leading_zero: "0 < n \<Longrightarrow> hd (str_nat n) \<noteq> digit_char 0"
proof (induction n rule: str_nat.induct)
  case (1 n)
  show ?case
  proof (cases "n < 10")
    case True
    with 1(2) show ?thesis
      by (simp add: str_nat.simps [of n] digit_char_def)
  next
    case False
    then have "0 < n div 10" by simp
    with 1 False have "hd (str_nat (n div 10)) \<noteq> digit_char 0" by simp
    with False show ?thesis
      by (simp add: str_nat.simps [of n] str_nat_nonempty)
  qed
qed

lemma digit_char_literals:
  "digit_char 0 = CHR ''0''" "digit_char 1 = CHR ''1''" "digit_char 2 = CHR ''2''"
  "digit_char 3 = CHR ''3''" "digit_char 4 = CHR ''4''" "digit_char 5 = CHR ''5''"
  "digit_char 6 = CHR ''6''" "digit_char 7 = CHR ''7''" "digit_char 8 = CHR ''8''"
  "digit_char 9 = CHR ''9''" "digit_char (Suc 0) = CHR ''1''"
  unfolding digit_char_def by code_simp+

lemma str_int_1: "str_int 1 = ''1''"
  by (simp add: str_int_def str_nat.simps digit_char_literals)

lemma str_int_100: "str_int 100 = ''100''"
  by (simp add: str_int_def str_nat.simps digit_char_literals)

text \<open>
  Claim C9. Whatever the random source, the name column is determined by the id column:
  row by row, the name is \<^verbatim>\<open>Item\<close>, a space, and the decimal representation of the
  row's id (digits only, no leading zero, reading back as the id), the id of row \<open>k\<close>
  (counted from 0) being \<open>k + 1\<close>; so the first name is \<^verbatim>\<open>Item 1\<close> and the last
  \<^verbatim>\<open>Item 100\<close>.
\<close>

theorem name_column_from_id:
  "\<exists>t ids names. df rs = Inr t \<and>
     get_column t ''id'' = Some (IntColumn ids) \<and>
     get_column t ''name'' = Some (StrColumn names) \<and>
     length names = length ids \<and>
     names = map (\<lambda>i. ''Item '' @ str_int i) ids \<and>
     (\<forall>k < length ids. \<exists>ds. names ! k = ''Item '' @ ds \<and> ds = str_int (ids ! k) \<and>
        ds \<noteq> [] \<and> list_all is_digit ds \<and> hd ds \<noteq> CHR ''0'' \<and>
        int (nat_of_digits ds) = ids ! k \<and> ids ! k = int k + 1) \<and>
     names ! 0 = ''Item 1'' \<and> names ! 99 = ''Item 100''"
proof -
  obtain t where t: "df rs = Inr t" "get_column t ''id'' = Some (IntColumn (py_range 1 101))"
    "get_column t ''name'' = Some (StrColumn (map (\<lambda>i. ''Item '' @ str_int i) (py_range 1 101)))"
    using get_column_df [of rs] by blast
  let ?ids = "py_range 1 101"
  let ?names = "map (\<lambda>i. ''Item '' @ str_int i) ?ids"
  have len: "length ?ids = 100" by (rule length_py_range_ids)
  have nth: "?ids ! k = int k + 1" if "k < 100" for k
    using that by (simp add: py_range_ids del: upt_Suc)
  have row: "\<exists>ds. ?names ! k = ''Item '' @ ds \<and> ds = str_int (?ids ! k) \<and>
        ds \<noteq> [] \<and> list_all is_digit ds \<and> hd ds \<noteq> CHR ''0'' \<and>
        int (nat_of_digits ds) = ?ids ! k \<and> ?ids ! k = int k + 1" if "k < length ?ids" for k
  proof -
    from that len have k: "k < 100" by simp
    have pos: "0 < nat (int k + 1)" by simp
    have "str_int (int k + 1) = str_nat (nat (int k + 1))" by (simp add: str_int_def)
    moreover have "hd (str_nat (nat (int k + 1))) \<noteq> CHR ''0''"
      using str_nat_no_leading_zero [OF pos] by (simp add: digit_char_literals)
    moreover have "int (nat_of_digits (str_nat (nat (int k + 1)))) = int k + 1"
      by (simp add: nat_of_digits_str_nat)
    ultimately show ?thesis
      using that nth [OF k] by (simp add: digits_str_nat str_nat_nonempty)
  qed
  have first: "?names ! 0 = ''Item 1''"
    using nth [of 0] len by (simp add: str_int_1)
  have last: "?names ! 99 = ''Item 100''"
    using nth [of 99] len by (simp add: str_int_100)
  from row have rows: "\<forall>k < length ?ids. \<exists>ds. ?names ! k = ''Item '' @ ds \<and>
        ds = str_int (?ids ! k) \<and> ds \<noteq> [] \<and> list_all is_digit ds \<and> hd ds \<noteq> CHR ''0'' \<and>
        int (nat_of_digits ds) = ?ids ! k \<and> ?ids ! k = int k + 1"
    by blast
  have same: "length ?names = length ?ids" by simp
  show ?thesis
    by (rule exI [of _ t], rule exI [of _ ?ids], rule exI [of _ ?names])
      (intro conjI t same refl rows first last)
qed


lemma df_total: "\<exists>t. df rs = Inr t"
  using get_column_df [of rs] by blast

text \<open>An instance: the source whose uniform draws are all 0.5 and whose raw indices are all 1.\<close>

theorem name_column_from_id_witness:
  "\<exists>t ids names.
     df \<lparr>uniform = (\<lambda>k. Finite False 1 (- 1)), raw_index = (\<lambda>k. 1)\<rparr> = Inr t \<and>
     get_column t ''id'' = Some (IntColumn ids) \<and>
     get_column t ''name'' = Some (StrColumn names) \<and>
     names ! 0 = ''Item 1'' \<and> names ! 99 = ''Item 100''"
  using name_column_from_id [of "\<lparr>uniform = (\<lambda>k. Finite False 1 (- 1)), raw_index = (\<lambda>k. 1)\<rparr>"]
  by blast

text \<open>
  Claim C1. Whatever the random source, the script builds a table of exactly 100 rows and
  exactly 6 columns, named id, name, value, category, date, is_active in this order,
  each column holding 100 entries, and it is this table that ends up in the file
  \<^verbatim>\<open>example_data_parquet.parquet\<close>.
\<close>

theorem generator_table_shape:
  "\<exists>t w'. df rs = Inr t \<and>
     generate_sample_parquet rs w = Inr w' \<and>
     parquet_files w' ''example_data_parquet.parquet'' = Some t \<and>
     nrows t = 100 \<and>
     length (columns t) = 6 \<and>
     column_names t = [''id'', ''name'', ''value'', ''category'', ''date'', ''is_active''] \<and>
     map (\<lambda>c. column_length (snd c)) (columns t) = [100, 100, 100, 100, 100, 100] \<and>
     printed w' = printed w @ [''Sample Parquet file created successfully!'']"
  by (simp add: generate_sample_parquet_def df_eq to_parquet_def print_gen_def column_names_def
      length_py_range_ids del: upt_Suc)

text \<open>
  Claim C10. For any two random sources, the two tables have the same id, name and date
  columns (and the same column names); the three other columns do depend on the draws:
  there are two sources whose tables differ in each of value, category and is_active.
\<close>

theorem deterministic_columns:
  "(\<exists>t1 t2. df rs1 = Inr t1 \<and> df rs2 = Inr t2 \<and>
      column_names t1 = column_names t2 \<and>
      get_column t1 ''id'' = get_column t2 ''id'' \<and>
      get_column t1 ''name'' = get_column t2 ''name'' \<and>
      get_column t1 ''date'' = get_column t2 ''date'') \<and>
   (\<exists>ra rb ta tb. df ra = Inr ta \<and> df rb = Inr tb \<and>
      get_column ta ''value'' \<noteq> get_column tb ''value'' \<and>
      get_column ta ''category'' \<noteq> get_column tb ''category'' \<and>
      get_column ta ''is_active'' \<noteq> get_column tb ''is_active'')"
proof
  show "\<exists>t1 t2. df rs1 = Inr t1 \<and> df rs2 = Inr t2 \<and>
      column_names t1 = column_names t2 \<and>
      get_column t1 ''id'' = get_column t2 ''id'' \<and>
      get_column t1 ''name'' = get_column t2 ''name'' \<and>
      get_column t1 ''date'' = get_column t2 ''date''"
    by (simp add: df_eq get_column_def column_names_def del: upt_Suc)
next
  let ?ra = "\<lparr>uniform = (\<lambda>k. Finite False 1 (- 1)), raw_index = (\<lambda>k. 1)\<rparr>"
  let ?rb = "\<lparr>uniform = (\<lambda>k. Finite False 0 0), raw_index = (\<lambda>k. 0)\<rparr>"
  have v: "fmul (Finite False 1 (- 1)) (f64_of_int 1000) \<noteq> fmul (Finite False 0 0) (f64_of_int 1000)"
    by (simp add: f64_of_int_def round_f64_def round_half_even_def bit_length.simps Let_def)
  have "map (\<lambda>k. fmul (uniform ?ra k) (f64_of_int 1000)) [0..<100] ! 0
      \<noteq> map (\<lambda>k. fmul (uniform ?rb k) (f64_of_int 1000)) [0..<100] ! 0"
    using v by (simp del: upt_Suc)
  then have 1: "map (\<lambda>k. fmul (uniform ?ra k) (f64_of_int 1000)) [0..<100]
      \<noteq> map (\<lambda>k. fmul (uniform ?rb k) (f64_of_int 1000)) [0..<100]"
    by metis
  have "map (\<lambda>k. [''A'', ''B'', ''C'', ''D''] ! (raw_index ?ra k mod 4)) [0..<100] ! 0
      \<noteq> map (\<lambda>k. [''A'', ''B'', ''C'', ''D''] ! (raw_index ?rb k mod 4)) [0..<100] ! 0"
    by (simp del: upt_Suc)
  then have 2: "map (\<lambda>k. [''A'', ''B'', ''C'', ''D''] ! (raw_index ?ra k mod 4)) [0..<100]
      \<noteq> map (\<lambda>k. [''A'', ''B'', ''C'', ''D''] ! (raw_index ?rb k mod 4)) [0..<100]"
    by metis
  have "map (\<lambda>k. [True, False] ! (raw_index ?ra (k + 100) mod 2)) [0..<100] ! 0
      \<noteq> map (\<lambda>k. [True, False] ! (raw_index ?rb (k + 100) mod 2)) [0..<100] ! 0"
    by (simp del: upt_Suc)
  then have 3: "map (\<lambda>k. [True, False] ! (raw_index ?ra (k + 100) mod 2)) [0..<100]
      \<noteq> map (\<lambda>k. [True, False] ! (raw_index ?rb (k + 100) mod 2)) [0..<100]"
    by metis
  show "\<exists>ra rb ta tb. df ra = Inr ta \<and> df rb = Inr tb \<and>
      get_column ta ''value'' \<noteq> get_column tb ''value'' \<and>
      get_column ta ''category'' \<noteq> get_column tb ''category'' \<and>
      get_column ta ''is_active'' \<noteq> get_column tb ''is_active''"
    apply (rule exI [of _ ?ra], rule exI [of _ ?rb])
    apply (simp only: df_eq)
    using 1 2 3 apply (simp add: get_column_def del: upt_Suc)
    done
qed
section \<open>Properties of the date column\<close>

lemma ns_per_day_pos: "0 < ns_per_day"
  by (simp add: ns_per_day_def)

lemma date_of_timestamp_midnight: "date_of_timestamp (z * ns_per_day) = civil_from_days z"
  using ns_per_day_pos by (simp add: date_of_timestamp_def)

lemma time_of_day_midnight: "time_of_day (z * ns_per_day) = 0"
  by (simp add: time_of_day_def)

lemma div_between:
  fixes a c q :: int
  assumes "c * q \<le> a" and "a < c * q + c"
  shows "a div c = q"
  by (rule int_div_pos_eq [where r = "a - c * q"]) (use assms in simp_all)

lemma civil_from_days_steps:
  fixes z era doe yoe doy mp :: int
  assumes "(z + 719468) div 146097 = era"
      and "z + 719468 - era * 146097 = doe"
      and "(doe - doe div 1460 + doe div 36524 - doe div 146096) div 365 = yoe"
      and "doe - (365 * yoe + yoe div 4 - yoe div 100) = doy"
      and "(5 * doy + 2) div 153 = mp"
  shows "civil_from_days z =
     (if (if mp < 10 then mp + 3 else mp - 9) \<le> 2 then yoe + era * 400 + 1 else yoe + era * 400,
      if mp < 10 then mp + 3 else mp - 9,
      doy - (153 * mp + 2) div 5 + 1)"
  unfolding civil_from_days_def Let_def assms ..

text \<open>
  The first hundred days of 2023 lie in the era and the year of the era given here; this
  leaves the day of the (March-based) year and the month to be read off.
\<close>

lemma civil_from_days_2023:
  fixes i yoe off mp :: int
  assumes i: "0 \<le> i" "i < 100"
      and yoe: "365 * yoe \<le> 8336 + i" "8336 + i < 365 * yoe + 365" "yoe = 22 \<or> yoe = 23"
      and off: "off = 8341 - (365 * yoe + 5)"
      and mp: "153 * mp \<le> 5 * (off + i) + 2" "5 * (off + i) + 2 < 153 * mp + 153"
  shows "civil_from_days (19358 + i) =
     (if (if mp < 10 then mp + 3 else mp - 9) \<le> 2 then yoe + 2001 else yoe + 2000,
      if mp < 10 then mp + 3 else mp - 9,
      off + i - (153 * mp + 2) div 5 + 1)"
proof -
  have era: "(19358 + i + 719468) div 146097 = 5"
    by (rule div_between) (use i in simp_all)
  have doe: "19358 + i + 719468 - 5 * 146097 = 8341 + i" by simp
  have d1: "(8341 + i) div 1460 = 5"
    by (rule div_between) (use i in simp_all)
  have d2: "(8341 + i) div 36524 = 0"
    by (rule div_between) (use i in simp_all)
  have d3: "(8341 + i) div 146096 = 0"
    by (rule div_between) (use i in simp_all)
  have "(8341 + i - 5 + 0 - 0) div 365 = yoe"
    by (rule div_between) (use yoe in simp_all)
  then have y: "(8341 + i - (8341 + i) div 1460 + (8341 + i) div 36524 - (8341 + i) div 146096)
      div 365 = yoe"
    by (simp only: d1 d2 d3)
  have y4: "yoe div 4 = 5" and y100: "yoe div 100 = 0"
    using yoe(3) by auto
  have doy: "8341 + i - (365 * yoe + yoe div 4 - yoe div 100) = off + i"
    by (simp add: y4 y100 off)
  have m: "(5 * (off + i) + 2) div 153 = mp"
    by (rule div_between) (use mp in simp_all)
  show ?thesis
    by (simp add: civil_from_days_steps [OF era doe y doy m])
qed

lemma in_january:
  fixes i :: int
  assumes "0 \<le> i" "i < 31"
  shows "civil_from_days (19358 + i) = (2023, 1, i + 1)"
proof -
  have "civil_from_days (19358 + i) =
     (if (if (10::int) < 10 then (10::int) + 3 else (10::int) - 9) \<le> 2 then (22::int) + 2001 else (22::int) + 2000,
      if (10::int) < 10 then (10::int) + 3 else (10::int) - 9,
      306 + i - (153 * (10::int) + 2) div 5 + 1)"
    by (rule civil_from_days_2023) (use assms in simp_all)
  then show ?thesis by simp
qed

lemma in_february:
  fixes i :: int
  assumes "31 \<le> i" "i < 59"
  shows "civil_from_days (19358 + i) = (2023, 2, i - 30)"
proof -
  have "civil_from_days (19358 + i) =
     (if (if (11::int) < 10 then (11::int) + 3 else (11::int) - 9) \<le> 2 then (22::int) + 2001 else (22::int) + 2000,
      if (11::int) < 10 then (11::int) + 3 else (11::int) - 9,
      306 + i - (153 * (11::int) + 2) div 5 + 1)"
    by (rule civil_from_days_2023) (use assms in simp_all)
  then show ?thesis by simp
qed

lemma in_march:
  fixes i :: int
  assumes "59 \<le> i" "i < 90"
  shows "civil_from_days (19358 + i) = (2023, 3, i - 58)"
proof -
  have "civil_from_days (19358 + i) =
     (if (if (0::int) < 10 then (0::int) + 3 else (0::int) - 9) \<le> 2 then (23::int) + 2001 else (23::int) + 2000,
      if (0::int) < 10 then (0::int) + 3 else (0::int) - 9,
      (- 59) + i - (153 * (0::int) + 2) div 5 + 1)"
    by (rule civil_from_days_2023) (use assms in simp_all)
  then show ?thesis by simp
qed

lemma in_april:
  fixes i :: int
  assumes "90 \<le> i" "i < 100"
  shows "civil_from_days (19358 + i) = (2023, 4, i - 89)"
proof -
  have "civil_from_days (19358 + i) =
     (if (if (1::int) < 10 then (1::int) + 3 else (1::int) - 9) \<le> 2 then (23::int) + 2001 else (23::int) + 2000,
      if (1::int) < 10 then (1::int) + 3 else (1::int) - 9,
      (- 59) + i - (153 * (1::int) + 2) div 5 + 1)"
    by (rule civil_from_days_2023) (use assms in simp_all)
  then show ?thesis by simp
qed

lemma first_hundred_days:
  fixes i :: int
  assumes "0 \<le> i" "i < 100"
  shows "civil_from_days (19358 + i) =
     (if i < 31 then (2023, 1, i + 1)
      else if i < 59 then (2023, 2, i - 30)
      else if i < 90 then (2023, 3, i - 58)
      else (2023, 4, i - 89))"
  using assms by (simp add: in_january in_february in_march in_april)

lemma first_hundred_days_valid:
  fixes i :: int
  assumes "0 \<le> i" "i < 100"
  shows "valid_date (civil_from_days (19358 + i))"
  using assms
  by (simp add: first_hundred_days valid_date_def days_in_month_def is_leap_def)

lemma first_hundred_days_next:
  fixes i :: int
  assumes "0 \<le> i" "i < 99"
  shows "civil_from_days (19358 + (i + 1)) = next_day (civil_from_days (19358 + i))"
proof -
  have a: "civil_from_days (19358 + (i + 1)) =
     (if i + 1 < 31 then (2023, 1, i + 1 + 1)
      else if i + 1 < 59 then (2023, 2, i + 1 - 30)
      else if i + 1 < 90 then (2023, 3, i + 1 - 58)
      else (2023, 4, i + 1 - 89))"
    by (rule first_hundred_days) (use assms in simp_all)
  have b: "civil_from_days (19358 + i) =
     (if i < 31 then (2023, 1, i + 1)
      else if i < 59 then (2023, 2, i - 30)
      else if i < 90 then (2023, 3, i - 58)
      else (2023, 4, i - 89))"
    by (rule first_hundred_days) (use assms in simp_all)
  show ?thesis
    unfolding a b using assms
    by (simp add: next_day_def days_in_month_def is_leap_def)
qed

text \<open>
  Claim C5. Whatever the random source, the date column holds 100 timestamps, each at
  midnight of a valid calendar date; the first is 2023-01-01, the last 2023-04-10, and
  every entry but the first is exactly one day (in nanoseconds, and in the calendar)
  after the entry before it.
\<close>

theorem date_column_consecutive:
  "\<exists>t dates. df rs = Inr t \<and>
     get_column t ''date'' = Some (DateColumn dates) \<and>
     length dates = 100 \<and>
     date_of_timestamp (dates ! 0) = (2023, 1, 1) \<and>
     date_of_timestamp (dates ! 99) = (2023, 4, 10) \<and>
     (\<forall>k < 99. date_of_timestamp (dates ! Suc k) = next_day (date_of_timestamp (dates ! k)) \<and>
        dates ! Suc k = dates ! k + ns_per_day) \<and>
     (\<forall>k < 100. time_of_day (dates ! k) = 0 \<and> valid_date (date_of_timestamp (dates ! k)))"
proof -
  let ?dates = "map (\<lambda>i. (19358 + int i) * ns_per_day) [0..<100]"
  obtain t where t: "df rs = Inr t" "get_column t ''date'' = Some (DateColumn ?dates)"
    using get_column_df [of rs] by blast
  have len: "length ?dates = 100" by simp
  have nth: "?dates ! k = (19358 + int k) * ns_per_day" if "k < 100" for k
    using that by (simp del: upt_Suc)
  have day: "date_of_timestamp (?dates ! k) = civil_from_days (19358 + int k)" if "k < 100" for k
    using that by (simp only: nth date_of_timestamp_midnight)
  have first: "date_of_timestamp (?dates ! 0) = (2023, 1, 1)"
    using day [of 0] first_hundred_days [of 0] by simp
  have last: "date_of_timestamp (?dates ! 99) = (2023, 4, 10)"
    using day [of 99] first_hundred_days [of 99] by simp
  have step: "date_of_timestamp (?dates ! Suc k) = next_day (date_of_timestamp (?dates ! k)) \<and>
        ?dates ! Suc k = ?dates ! k + ns_per_day" if "k < 99" for k
  proof
    have c: "civil_from_days (19358 + int (Suc k)) = next_day (civil_from_days (19358 + int k))"
      using first_hundred_days_next [of "int k"] that by (simp add: add.commute)
    have dk: "date_of_timestamp (?dates ! k) = civil_from_days (19358 + int k)"
      by (rule day) (use that in simp)
    have dsk: "date_of_timestamp (?dates ! Suc k) = civil_from_days (19358 + int (Suc k))"
      by (rule day) (use that in simp)
    show "date_of_timestamp (?dates ! Suc k) = next_day (date_of_timestamp (?dates ! k))"
      unfolding dk dsk by (rule c)
    have "?dates ! Suc k = (19358 + int (Suc k)) * ns_per_day"
      by (rule nth) (use that in simp)
    moreover have "?dates ! k = (19358 + int k) * ns_per_day"
      by (rule nth) (use that in simp)
    ultimately show "?dates ! Suc k = ?dates ! k + ns_per_day"
      by (simp only:) (simp add: algebra_simps)
  qed
  have each: "time_of_day (?dates ! k) = 0 \<and> valid_date (date_of_timestamp (?dates ! k))"
    if "k < 100" for k
  proof
    show "time_of_day (?dates ! k) = 0"
      by (simp only: nth [OF that] time_of_day_midnight)
    have "valid_date (civil_from_days (19358 + int k))"
      by (rule first_hundred_days_valid) (use that in simp_all)
    then show "valid_date (date_of_timestamp (?dates ! k))"
      by (simp only: day [OF that])
  qed
  from step have steps: "\<forall>k < 99. date_of_timestamp (?dates ! Suc k) =
        next_day (date_of_timestamp (?dates ! k)) \<and> ?dates ! Suc k = ?dates ! k + ns_per_day"
    by blast
  from each have all: "\<forall>k < 100. time_of_day (?dates ! k) = 0 \<and>
        valid_date (date_of_timestamp (?dates ! k))"
    by blast
  show ?thesis
    by (rule exI [of _ t], rule exI [of _ ?dates]) (intro conjI t len first last steps all)
qed

text \<open>An instance: the date column for the source whose draws are all 0.5 and 1.\<close>

theorem date_column_consecutive_witness:
  "\<exists>t dates.
     df \<lparr>uniform = (\<lambda>k. Finite False 1 (- 1)), raw_index = (\<lambda>k. 1)\<rparr> = Inr t \<and>
     get_column t ''date'' = Some (DateColumn dates) \<and>
     date_of_timestamp (dates ! 1) = next_day (date_of_timestamp (dates ! 0)) \<and>
     date_of_timestamp (dates ! 0) = (2023, 1, 1) \<and>
     time_of_day (dates ! 0) = 0"
proof -
  obtain t dates where h:
    "df \<lparr>uniform = (\<lambda>k. Finite False 1 (- 1)), raw_index = (\<lambda>k. 1)\<rparr> = Inr t"
    "get_column t ''date'' = Some (DateColumn dates)"
    "date_of_timestamp (dates ! 0) = (2023, 1, 1)"
    "\<forall>k < 99. date_of_timestamp (dates ! Suc k) = next_day (date_of_timestamp (dates ! k)) \<and>
        dates ! Suc k = dates ! k + ns_per_day"
    "\<forall>k < 100. time_of_day (dates ! k) = 0 \<and> valid_date (date_of_timestamp (dates ! k))"
    using date_column_consecutive
      [of "\<lparr>uniform = (\<lambda>k. Finite False 1 (- 1)), raw_index = (\<lambda>k. 1)\<rparr>"]
    by blast
  have "(0::nat) < 99" and z: "(0::nat) < 100" by simp_all
  with h(4) have "date_of_timestamp (dates ! Suc 0) = next_day (date_of_timestamp (dates ! 0))"
    by blast
  then have s0: "date_of_timestamp (dates ! 1) = next_day (date_of_timestamp (dates ! 0))"
    by (simp only: One_nat_def)
  from h(5) z have t0: "time_of_day (dates ! 0) = 0"
    by blast
  show ?thesis
    by (rule exI [of _ t], rule exI [of _ dates]) (intro conjI h(1) h(2) s0 h(3) t0)
qed
section \<open>Properties of the value column\<close>

subsection \<open>Bit lengths\<close>

lemma bit_length_0 [simp]: "bit_length 0 = 0"
  by (simp add: bit_length.simps [of 0])

lemma bit_length_pos: "0 < n \<Longrightarrow> bit_length n = Suc (bit_length (n div 2))"
  by (simp add: bit_length.simps [of n])

lemma bit_length_le: "n < 2 ^ j \<Longrightarrow> bit_length n \<le> j"
proof (induction n arbitrary: j rule: bit_length.induct)
  case (1 n)
  show ?case
  proof (cases "n = 0")
    case True
    then show ?thesis by simp
  next
    case False
    with "1.prems" obtain j' where j: "j = Suc j'"
      by (cases j) auto
    with "1.prems" have "n div 2 < 2 ^ j'" by auto
    with 1 False have "bit_length (n div 2) \<le> j'" by blast
    with False j show ?thesis by (simp add: bit_length.simps [of n])
  qed
qed

lemma bit_length_upper: "n < 2 ^ bit_length n"
proof (induction n rule: bit_length.induct)
  case (1 n)
  show ?case
  proof (cases "n = 0")
    case True
    then show ?thesis by simp
  next
    case False
    with 1 have "n div 2 < 2 ^ bit_length (n div 2)" by blast
    then have "n < 2 * 2 ^ bit_length (n div 2)" by auto
    with False show ?thesis by (simp add: bit_length.simps [of n])
  qed
qed

lemma bit_length_lower: "0 < n \<Longrightarrow> 2 ^ (bit_length n - 1) \<le> n"
proof (induction n rule: bit_length.induct)
  case (1 n)
  from "1.prems" have n: "n \<noteq> 0" by simp
  show ?case
  proof (cases "n div 2 = 0")
    case True
    with n show ?thesis
      by (simp add: bit_length.simps [of n] bit_length.simps [of 0])
  next
    case False
    with 1 n have ih: "2 ^ (bit_length (n div 2) - 1) \<le> n div 2" by simp
    from False have "bit_length (n div 2) = Suc (bit_length (n div 2) - 1)"
      by (simp add: bit_length.simps [of "n div 2"])
    then have "(2::nat) ^ bit_length (n div 2) = 2 * 2 ^ (bit_length (n div 2) - 1)"
      by (metis power_Suc)
    also have "\<dots> \<le> 2 * (n div 2)" using ih by simp
    also have "\<dots> \<le> n" by simp
    finally show ?thesis using n by (simp add: bit_length.simps [of n])
  qed
qed

lemma bit_length_gt: "2 ^ j \<le> n \<Longrightarrow> j < bit_length n"
proof -
  assume "2 ^ j \<le> n"
  also have "n < 2 ^ bit_length n" by (rule bit_length_upper)
  finally have "(2::nat) ^ j < 2 ^ bit_length n" .
  then show ?thesis by (simp add: power_strict_increasing_iff)
qed

lemma bit_length_pow2: "bit_length (2 ^ j) = Suc j"
proof -
  have "bit_length (2 ^ j) \<le> Suc j" by (rule bit_length_le) simp
  moreover have "j < bit_length (2 ^ j)" by (rule bit_length_gt) simp
  ultimately show ?thesis by simp
qed

subsection \<open>Rounding to the nearest integer\<close>

lemma round_half_even_zero: "round_half_even m 0 = m"
  by (simp add: round_half_even_def)

lemma round_half_even_bounds:
  "m div 2 ^ k \<le> round_half_even m k \<and> round_half_even m k \<le> m div 2 ^ k + 1"
  by (simp add: round_half_even_def Let_def)

lemma round_half_even_down:
  "2 * (m mod 2 ^ k) < 2 ^ k \<Longrightarrow> round_half_even m k = m div 2 ^ k"
  by (simp add: round_half_even_def Let_def)

text \<open>
  The rounded quotient stays below a bound \<open>L\<close> when the number is at least \<open>c\<close>
  below \<open>L * 2 ^ k\<close> and \<open>c\<close> is more than half a unit.
\<close>

lemma round_half_even_below:
  assumes "m + c \<le> L * 2 ^ k" and "2 ^ k < 2 * c"
  shows "round_half_even m k < L"
proof -
  let ?q = "m div 2 ^ k" and ?r = "m mod 2 ^ k"
  have m: "m = ?q * 2 ^ k + ?r" by (rule div_mult_mod_eq [symmetric])
  from assms have c: "0 < c" by (cases c) auto
  have "?q * 2 ^ k \<le> m" by simp
  also have "m < L * 2 ^ k" using assms(1) c by simp
  finally have q: "?q < L" by simp
  show ?thesis
  proof (cases "?q + 1 < L")
    case True
    with round_half_even_bounds [of m k] show ?thesis by simp
  next
    case False
    with q have L: "L = ?q + 1" by simp
    have "?q * 2 ^ k + ?r + c = m + c" by (simp only: div_mult_mod_eq)
    also have "\<dots> \<le> L * 2 ^ k" by fact
    also have "\<dots> = ?q * 2 ^ k + 2 ^ k" by (simp add: L)
    finally have "?r + c \<le> 2 ^ k" by simp
    with assms(2) have "2 * ?r < 2 ^ k" by simp
    then have "round_half_even m k = ?q" by (rule round_half_even_down)
    with q show ?thesis by simp
  qed
qed

subsection \<open>Rounding to binary64\<close>

lemma pow2_pos: "0 < pow2 e"
  by (simp add: pow2_def)

lemma pow2_succ: "pow2 (e + 1) = 2 * pow2 e"
proof -
  consider "0 \<le> e" | "e = - 1" | "e < - 1" by linarith
  then show ?thesis
  proof cases
    case 1
    then have "nat (e + 1) = Suc (nat e)" by simp
    with 1 show ?thesis by (simp add: pow2_def)
  next
    case 2
    then show ?thesis by (simp add: pow2_def)
  next
    case 3
    then have "nat (- e) = Suc (nat (- (e + 1)))" by simp
    with 3 show ?thesis by (simp add: pow2_def)
  qed
qed

lemma pow2_neg: "k \<le> t \<Longrightarrow> pow2 (- int t + int k) = 1 / 2 ^ (t - k)"
proof -
  assume kt: "k \<le> t"
  show ?thesis
  proof (cases "k = t")
    case True
    then show ?thesis by (simp add: pow2_def)
  next
    case False
    with kt have "nat (int t - int k) = t - k" "\<not> 0 \<le> - int t + int k" by simp_all
    then show ?thesis by (simp add: pow2_def)
  qed
qed

text \<open>Rounding always gives a value that a binary64 datum can hold.\<close>

lemma wf_round_f64: "wf_f64 (round_f64 s m e)"
proof -
  let ?k = "nat (max (int (bit_length m) - 53) (- 1074 - e))"
  let ?m' = "round_half_even m ?k"
  let ?e' = "e + int ?k"
  have e': "- 1074 \<le> ?e'" by linarith
  have "bit_length m \<le> 53 + ?k" by linarith
  then have "(2::nat) ^ bit_length m \<le> 2 ^ (53 + ?k)"
    by (simp only: power_increasing_iff)
  with bit_length_upper [of m] have "m < 2 ^ 53 * 2 ^ ?k" by (simp add: power_add)
  then have "m div 2 ^ ?k < 2 ^ 53" by (rule less_mult_imp_div_less)
  with round_half_even_bounds [of m ?k] have m': "?m' \<le> 2 ^ 53" by simp
  show ?thesis
  proof (cases "1024 < int (bit_length ?m') + ?e'")
    case True
    then show ?thesis by (simp add: round_f64_def Let_def)
  next
    case no_overflow: False
    show ?thesis
    proof (cases "?m' = 2 ^ 53")
      case True
      from no_overflow have "int (bit_length (2 ^ 53)) + ?e' \<le> 1024"
        unfolding True by simp
      then have "int (Suc 53) + ?e' \<le> 1024"
        by (simp only: bit_length_pow2)
      moreover have "bit_length (2 ^ 52) = Suc 52" by (rule bit_length_pow2)
      ultimately show ?thesis
        using no_overflow True e' by (simp add: round_f64_def Let_def)
    next
      case False
      with m' have "?m' < 2 ^ 53" by simp
      with no_overflow False e' show ?thesis by (simp add: round_f64_def Let_def)
    qed
  qed
qed

lemma f64_of_int_1000: "f64_of_int 1000 = Finite False 1000 0"
  by (simp add: f64_of_int_def round_f64_def round_half_even_def bit_length.simps Let_def)

lemma wf_fmul_1000: "wf_f64 (fmul x (f64_of_int 1000))"
  by (cases x) (simp_all add: f64_of_int_1000 wf_round_f64)

subsection \<open>A draw below 1, multiplied by 1000\<close>

lemma round_f64_zero:
  assumes "- 1074 \<le> e" and "e \<le> 1024"
  shows "round_f64 s 0 e = Finite s 0 e"
proof -
  from assms have "nat (max (int (bit_length 0) - 53) (- 1074 - e)) = 0" by simp
  then show ?thesis
    using assms by (simp add: round_f64_def round_half_even_def Let_def)
qed

lemma round_f64_exact:
  assumes "bit_length m \<le> 53" and "- 1074 \<le> e" and "int (bit_length m) + e \<le> 1024"
  shows "round_f64 s m e = Finite s m e"
proof -
  from assms have k: "nat (max (int (bit_length m) - 53) (- 1074 - e)) = 0" by simp
  from assms(1) bit_length_upper [of m] have "m < 2 ^ 53"
    by (meson le_less_trans not_less power_increasing_iff one_less_numeral_iff semiring_norm(76)
        less_le_trans)
  then have "m \<noteq> 2 ^ 53" by simp
  with assms k show ?thesis
    by (simp add: round_f64_def round_half_even_zero Let_def)
qed

lemma round_f64_below_1000:
  fixes m t :: nat
  assumes m53: "m < 2 ^ 53" and t: "t \<le> 1074" and mt: "m < 2 ^ t" and pos: "0 < m"
  shows "\<exists>m' e'. round_f64 s (m * 1000) (- int t) = Finite s m' e' \<and>
           of_nat m' * pow2 e' < 1000"
proof -
  let ?M = "m * 1000"
  let ?b = "bit_length ?M"
  let ?e = "- int t"
  have k_eq: "nat (max (int ?b - 53) (- 1074 - ?e)) = ?b - 53"
    using t by simp
  have "?M < 1000 * 2 ^ 53" using m53 by simp
  also have "\<dots> < (2::nat) ^ 63" by simp
  finally have b63: "?b \<le> 63" by (rule bit_length_le)
  have Mt: "?M + 1000 \<le> 1000 * 2 ^ t" using mt by simp
  then have "?M < 1024 * 2 ^ t" by simp
  also have "\<dots> = (2::nat) ^ (t + 10)" by (simp add: power_add)
  finally have bt: "?b \<le> t + 10" by (rule bit_length_le)
  show ?thesis
  proof (cases "?b \<le> 53")
    case True
    have "round_f64 s ?M ?e = Finite s ?M ?e"
      by (rule round_f64_exact) (use True t in simp_all)
    moreover have "of_nat ?M * pow2 ?e < (1000::rat)"
    proof -
      have "(of_nat m :: rat) < 2 ^ t" using mt by simp
      then have "(of_nat m :: rat) * 1000 / 2 ^ t < 1000" by (simp add: field_simps)
      moreover have "pow2 ?e = 1 / 2 ^ t" using pow2_neg [of 0 t] by simp
      ultimately show ?thesis by simp
    qed
    ultimately show ?thesis by blast
  next
    case False
    define k where "k = ?b - 53"
    from False have kpos: "0 < k" by (simp add: k_def)
    from b63 have k10: "k \<le> 10" by (simp add: k_def)
    from bt False have kt: "k + 43 \<le> t" by (simp add: k_def)
    then have kt': "k \<le> t" by simp
    define L :: nat where "L = 1000 * 2 ^ (t - k)"
    have Lk: "L * 2 ^ k = 1000 * 2 ^ t"
      using kt' by (simp add: L_def power_add [symmetric])
    have "(2::nat) ^ k \<le> 2 ^ 10" using k10 by (simp only: power_increasing_iff)
    then have half: "(2::nat) ^ k < 2 * 1000" by simp
    define m' where "m' = round_half_even ?M k"
    have m'L: "m' < L"
      unfolding m'_def by (rule round_half_even_below [where c = 1000]) (use Mt Lk half in simp_all)
    then have "m' < 1024 * 2 ^ (t - k)" by (simp add: L_def)
    also have "\<dots> = (2::nat) ^ (t - k + 10)" by (simp add: power_add)
    finally have bm': "bit_length m' \<le> t - k + 10" by (rule bit_length_le)
    then have no_overflow: "\<not> 1024 < int (bit_length m') + (?e + int k)"
      using kt' by simp
    have val: "(of_nat m' :: rat) * pow2 (?e + int k) < 1000"
    proof -
      have "(of_nat m' :: rat) < of_nat L" using m'L by (simp only: of_nat_less_iff)
      also have "\<dots> = 1000 * 2 ^ (t - k)" by (simp add: L_def)
      finally have "(of_nat m' :: rat) / 2 ^ (t - k) < 1000" by (simp add: field_simps)
      moreover have "pow2 (?e + int k) = 1 / 2 ^ (t - k)" by (rule pow2_neg [OF kt'])
      ultimately show ?thesis by (simp only: mult_1_right times_divide_eq_right)
    qed
    have r: "round_f64 s ?M ?e =
      (if m' = 2 ^ 53 then Finite s (2 ^ 52) (?e + int k + 1) else Finite s m' (?e + int k))"
      using no_overflow
      by (simp only: round_f64_def Let_def k_eq k_def [symmetric] m'_def [symmetric]) simp
    show ?thesis
    proof (cases "m' = 2 ^ 53")
      case True
      have "(of_nat (2 ^ 52) :: rat) * pow2 (?e + int k + 1) = of_nat m' * pow2 (?e + int k)"
        by (simp add: pow2_succ True)
      with val r True show ?thesis by auto
    next
      case False
      with val r show ?thesis by auto
    qed
  qed
qed

lemma fmul_1000_below:
  assumes wf: "wf_f64 x" and fin: "is_finite x" and nonneg: "0 \<le> valof x" and lt: "valof x < 1"
  shows "is_finite (fmul x (f64_of_int 1000)) \<and> 0 \<le> valof (fmul x (f64_of_int 1000))
     \<and> valof (fmul x (f64_of_int 1000)) < 1000"
proof -
  from fin obtain s m e where x: "x = Finite s m e" by (cases x) auto
  from wf x have m53: "m < 2 ^ 53" and e_lo: "- 1074 \<le> e"
    and e_hi: "int (bit_length m) + e \<le> 1024" by simp_all
  have f: "fmul x (f64_of_int 1000) = round_f64 s (m * 1000) e"
    by (simp add: x f64_of_int_1000)
  show ?thesis
  proof (cases "m = 0")
    case True
    from e_hi have "e \<le> 1024" by simp
    with e_lo have "round_f64 s 0 e = Finite s 0 e" by (rule round_f64_zero)
    with True show ?thesis by (simp add: f)
  next
    case False
    then have pos: "0 < m" by simp
    then have mpos: "(0::rat) < of_nat m" by simp
    have s: "\<not> s"
    proof
      assume "s"
      then have "valof x = - (of_nat m * pow2 e)" by (simp add: x)
      moreover have "0 < of_nat m * pow2 e" using mpos pow2_pos [of e] by simp
      ultimately show False using nonneg by simp
    qed
    then have v: "valof x = of_nat m * pow2 e" by (simp add: x)
    have eneg: "e < 0"
    proof (rule ccontr)
      assume "\<not> e < 0"
      then have p: "(1::rat) \<le> pow2 e" by (simp add: pow2_def)
      have "(1::rat) \<le> of_nat m" using pos by simp
      from this p have "(1::rat) * 1 \<le> of_nat m * pow2 e" by (rule mult_mono) simp_all
      with lt v show False by simp
    qed
    define t where "t = nat (- e)"
    from eneg have e: "e = - int t" by (simp add: t_def)
    from e_lo e have t: "t \<le> 1074" by simp
    have "pow2 e = 1 / 2 ^ t" unfolding e using pow2_neg [of 0 t] by simp
    with lt v have "(of_nat m :: rat) / 2 ^ t < 1" by simp
    then have "(of_nat m :: rat) < 2 ^ t" by (simp add: field_simps)
    then have mt: "m < 2 ^ t" by simp
    obtain m' e' where r: "round_f64 s (m * 1000) (- int t) = Finite s m' e'"
      and b: "(of_nat m' :: rat) * pow2 e' < 1000"
      using round_f64_below_1000 [OF m53 t mt pos] by blast
    have "(0::rat) \<le> of_nat m' * pow2 e'" using pow2_pos [of e'] by simp
    with r b s show ?thesis by (simp add: f e)
  qed
qed

text \<open>
  Claim C6. If each of the 100 uniform draws is a finite double \<open>r\<close> with
  \<open>0 \<le> r < 1\<close>, then the table is built and every entry of its value column, the
  draw times 1000 rounded to binary64, is a finite double in the interval from 0
  (included) to 1000 (excluded).
\<close>

theorem value_column_range:
  assumes "\<forall>k < 100. wf_f64 (uniform rs k) \<and> is_finite (uniform rs k) \<and>
     0 \<le> valof (uniform rs k) \<and> valof (uniform rs k) < 1"
  shows "\<exists>t vals. df rs = Inr t \<and>
     get_column t ''value'' = Some (FloatColumn vals) \<and>
     length vals = 100 \<and>
     (\<forall>v \<in> set vals. wf_f64 v \<and> is_finite v \<and> 0 \<le> valof v \<and> valof v < 1000)"
proof -
  let ?vals = "map (\<lambda>k. fmul (uniform rs k) (f64_of_int 1000)) [0..<100]"
  obtain t where t: "df rs = Inr t" "get_column t ''value'' = Some (FloatColumn ?vals)"
    using get_column_df [of rs] by blast
  have len: "length ?vals = 100" by simp
  have range: "\<forall>v \<in> set ?vals. wf_f64 v \<and> is_finite v \<and> 0 \<le> valof v \<and> valof v < 1000"
  proof
    fix v assume "v \<in> set ?vals"
    then obtain k where k: "k < 100" and v: "v = fmul (uniform rs k) (f64_of_int 1000)"
      by auto
    from assms k have "wf_f64 (uniform rs k)" "is_finite (uniform rs k)"
      "0 \<le> valof (uniform rs k)" "valof (uniform rs k) < 1" by simp_all
    then have "is_finite v \<and> 0 \<le> valof v \<and> valof v < 1000"
      unfolding v by (rule fmul_1000_below)
    moreover have "wf_f64 v" unfolding v by (rule wf_fmul_1000)
    ultimately show "wf_f64 v \<and> is_finite v \<and> 0 \<le> valof v \<and> valof v < 1000" by simp
  qed
  show ?thesis
    by (rule exI [of _ t], rule exI [of _ ?vals]) (intro conjI t len range)
qed

text \<open>
  An instance: every draw is the largest double below 1, \<open>(2 ^ 53 - 1) / 2 ^ 53\<close>. Its
  product with 1000 rounds to \<open>1000 - 2 ^ -43\<close>, the largest double below 1000.
\<close>

lemma largest_below_one:
  "wf_f64 (Finite False 9007199254740991 (- 53))"
  "valof (Finite False 9007199254740991 (- 53)) < 1"
  "0 \<le> valof (Finite False 9007199254740991 (- 53))"
proof -
  have "bit_length 9007199254740991 \<le> 53" by (rule bit_length_le) simp
  then show "wf_f64 (Finite False 9007199254740991 (- 53))" by simp
  show "valof (Finite False 9007199254740991 (- 53)) < 1" by (simp add: pow2_def)
  show "0 \<le> valof (Finite False 9007199254740991 (- 53))" by (simp add: pow2_def)
qed

lemma largest_below_one_times_1000:
  "fmul (Finite False 9007199254740991 (- 53)) (f64_of_int 1000) =
     Finite False 8796093022207999 (- 43)"
  by (simp add: f64_of_int_1000 round_f64_def round_half_even_def bit_length.simps Let_def)

theorem value_column_range_witness:
  "\<exists>t vals.
     df \<lparr>uniform = (\<lambda>k. Finite False 9007199254740991 (- 53)), raw_index = (\<lambda>k. 0)\<rparr> = Inr t \<and>
     get_column t ''value'' = Some (FloatColumn vals) \<and>
     length vals = 100 \<and>
     vals ! 0 = Finite False 8796093022207999 (- 43) \<and>
     0 \<le> valof (vals ! 0) \<and> valof (vals ! 0) < 1000"
proof -
  let ?rs = "\<lparr>uniform = (\<lambda>k. Finite False 9007199254740991 (- 53)), raw_index = (\<lambda>k. 0)\<rparr>"
  have "\<forall>k < 100. wf_f64 (uniform ?rs k) \<and> is_finite (uniform ?rs k) \<and>
     0 \<le> valof (uniform ?rs k) \<and> valof (uniform ?rs k) < 1"
    using largest_below_one by simp
  then obtain t vals where h: "df ?rs = Inr t"
    "get_column t ''value'' = Some (FloatColumn vals)" "length vals = 100"
    "\<forall>v \<in> set vals. wf_f64 v \<and> is_finite v \<and> 0 \<le> valof v \<and> valof v < 1000"
    using value_column_range [of ?rs] by blast
  from h(3) have "vals ! 0 \<in> set vals" by simp
  with h(4) have b: "0 \<le> valof (vals ! 0)" "valof (vals ! 0) < 1000" by blast+
  obtain t' where t': "df ?rs = Inr t'"
    "get_column t' ''value'' =
       Some (FloatColumn (map (\<lambda>k. fmul (uniform ?rs k) (f64_of_int 1000)) [0..<100]))"
    using get_column_df [of ?rs] by blast
  with h(1) h(2) have "vals = map (\<lambda>k. fmul (uniform ?rs k) (f64_of_int 1000)) [0..<100]"
    by simp
  then have "vals ! 0 = fmul (Finite False 9007199254740991 (- 53)) (f64_of_int 1000)"
    by (simp del: upt_Suc)
  then have v0: "vals ! 0 = Finite False 8796093022207999 (- 43)"
    by (simp only: largest_below_one_times_1000)
  show ?thesis
    by (rule exI [of _ t], rule exI [of _ vals]) (intro conjI h(1) h(2) h(3) v0 b)
qed
section \<open>Properties of the diagrams\<close>

lemma image_classifier_data_flow:
  "data_flow_chain image_classifier_dot [''images'', ''tensors'', ''features'', ''predictions'']"
  by (simp add: data_flow_chain_def chain_edges_def image_classifier_dot_def Digraph_def attr_def
      node_def edge_def subgraph_def Let_def)

lemma text_analyzer_data_flow:
  "data_flow_chain text_analyzer_dot [''text'', ''tokens'', ''embeddings'', ''sentiment'']"
  by (simp add: data_flow_chain_def chain_edges_def text_analyzer_dot_def Digraph_def attr_def
      node_def edge_def subgraph_def Let_def)

lemma data_predictor_data_flow:
  "data_flow_chain data_predictor_dot [''csv'', ''features'', ''normalized'', ''prediction'']"
  by (simp add: data_flow_chain_def chain_edges_def data_predictor_dot_def Digraph_def attr_def
      node_def edge_def subgraph_def Let_def)

text \<open>The overview diagram is not of this shape: it has three groupings.\<close>

lemma templates_overview_no_data_flow: "\<not> data_flow_chain templates_overview_dot ns"
  by (simp add: data_flow_chain_def templates_overview_dot_def Digraph_def attr_def
      node_def edge_def subgraph_def Let_def)

text \<open>
  Claim C7. Each of the three per-template diagrams has exactly one nested grouping,
  labeled \<^verbatim>\<open>Data Flow\<close>, holding a chain of four stages (so, of three to four) joined
  only by unlabeled edges from each stage to the next: the grouping declares no other
  edge, none skipping a stage or going backwards, and no edge declared outside it joins
  two of its stages.
\<close>

theorem data_flow_groupings:
  "data_flow_chain image_classifier_dot [''images'', ''tensors'', ''features'', ''predictions''] \<and>
   data_flow_chain text_analyzer_dot [''text'', ''tokens'', ''embeddings'', ''sentiment''] \<and>
   data_flow_chain data_predictor_dot [''csv'', ''features'', ''normalized'', ''prediction''] \<and>
   chain_edges [''images'', ''tensors'', ''features'', ''predictions''] =
     [(''images'', ''tensors'', None, []), (''tensors'', ''features'', None, []),
      (''features'', ''predictions'', None, [])]"
  by (simp add: image_classifier_data_flow text_analyzer_data_flow data_predictor_data_flow
      chain_edges_def)
section \<open>Properties of the renderer\<close>

subsection \<open>One diagram\<close>

text \<open>A routine succeeds exactly when \<open>can_render\<close> holds in the working directory.\<close>

lemma create_ok:
  assumes "can_render be (os_fault w) (fs w) (cwd w) (g, n, msg)"
  shows "seq (render be g n ''png'') (print msg) w = (None, after_diagram be w (g, n, msg))"
proof -
  from assms obtain img where img: "be g = Inr img"
    by (auto simp: can_render_def split: sum.splits)
  from assms have a: "fs w (cwd w @ [n]) \<noteq> Some Directory"
    and b: "fs w (cwd w @ [n @ ''.png'']) \<noteq> Some Directory"
    and c: "os_fault w (Write (cwd w @ [n])) = None"
      "os_fault w (Write (cwd w @ [n @ ''.png''])) = None"
      "os_fault w (Remove (cwd w @ [n])) = None"
    by (simp_all add: can_render_def)
  have twist: "(fs w)(cwd w @ [n @ ''.png''] \<mapsto> PngFile img, cwd w @ [n] := None) =
      (fs w)(cwd w @ [n] := None, cwd w @ [n @ ''.png''] \<mapsto> PngFile img)"
    by (rule fun_upd_twist) simp
  show ?thesis
    using a b
    by (simp add: render_def seq_def save_def run_dot_def os_remove_def print_def Let_def img c
        the_image_def after_diagram_def twist split: option.splits fs_entry.splits)
qed

text \<open>
  When it fails, nothing is printed and the directory is left as it was, but for the
  source file, which stays behind when the failure comes after it is written, and the
  image, which is there when the failure is that of removing the source file.
\<close>

lemma create_fail:
  assumes "\<not> can_render be (os_fault w) (fs w) (cwd w) (g, n, msg)"
  shows "\<exists>err w'. seq (render be g n ''png'') (print msg) w = (Some err, w') \<and>
     cwd w' = cwd w \<and> stdout w' = stdout w \<and>
     os_fault w' = os_fault w \<and>
     (\<forall>p. p \<noteq> cwd w @ [n] \<and> p \<noteq> cwd w @ [n @ ''.png''] \<longrightarrow> fs w' p = fs w p) \<and>
     (dot_calls w' = dot_calls w \<or> dot_calls w' = dot_calls w @ [cwd w @ [n]])"
  using assms
  by (auto simp: can_render_def render_def seq_def save_def run_dot_def os_remove_def print_def
      Let_def split: option.splits fs_entry.splits sum.splits)

lemma cwd_after_diagram [simp]: "cwd (after_diagram be w d) = cwd w"
  by (simp add: after_diagram_def split: prod.splits)

lemma os_fault_after_diagram [simp]: "os_fault (after_diagram be w d) = os_fault w"
  by (simp add: after_diagram_def split: prod.splits)

lemma stdout_after_diagram [simp]:
  "stdout (after_diagram be w (g, n, msg)) = stdout w @ [msg]"
  by (simp add: after_diagram_def)

lemma dot_calls_after_diagram [simp]:
  "dot_calls (after_diagram be w (g, n, msg)) = dot_calls w @ [cwd w @ [n]]"
  by (simp add: after_diagram_def)

lemma fs_after_diagram:
  "fs (after_diagram be w (g, n, msg)) p =
     (if p = cwd w @ [n @ ''.png''] then Some (PngFile (the_image be g))
      else if p = cwd w @ [n] then None else fs w p)"
  by (simp add: after_diagram_def)

text \<open>A routine does not disturb what another one, with other file names, needs.\<close>

lemma can_render_after_diagram:
  assumes "n' \<noteq> n" "n' \<noteq> n @ ''.png''" "n' @ ''.png'' \<noteq> n" "n' \<noteq> n"
  shows "can_render be (os_fault w) (fs (after_diagram be w (g, n, msg))) (cwd w) (g', n', msg') =
     can_render be (os_fault w) (fs w) (cwd w) (g', n', msg')"
  using assms by (simp add: can_render_def fs_after_diagram)

subsection \<open>Several diagrams, one after the other\<close>

lemma file_names_Cons:
  "file_names ((g, n, msg) # ds) = n # (n @ ''.png'') # file_names ds"
  by (simp add: file_names_def)

lemma file_names_member:
  "(g, n, msg) \<in> set ds \<Longrightarrow> n \<in> set (file_names ds) \<and> n @ ''.png'' \<in> set (file_names ds)"
  by (induction ds) (auto simp: file_names_def)

lemma file_names_append: "file_names (xs @ ys) = file_names xs @ file_names ys"
  by (simp add: file_names_def)

lemma cwd_foldl_after [simp]: "cwd (foldl (after_diagram be) w ds) = cwd w"
  by (induction ds arbitrary: w) simp_all

lemma os_fault_foldl_after [simp]: "os_fault (foldl (after_diagram be) w ds) = os_fault w"
  by (induction ds arbitrary: w) simp_all

lemma stdout_foldl_after:
  "stdout (foldl (after_diagram be) w ds) = stdout w @ map (\<lambda>(g, n, msg). msg) ds"
  by (induction ds arbitrary: w) auto

lemma dot_calls_foldl_after:
  "dot_calls (foldl (after_diagram be) w ds) = dot_calls w @ map (\<lambda>(g, n, msg). cwd w @ [n]) ds"
  by (induction ds arbitrary: w) auto

lemma fs_foldl_after_other:
  "\<forall>nm \<in> set (file_names ds). p \<noteq> cwd w @ [nm] \<Longrightarrow> fs (foldl (after_diagram be) w ds) p = fs w p"
proof (induction ds arbitrary: w)
  case Nil
  show ?case by simp
next
  case (Cons d ds)
  obtain g n msg where d: "d = (g, n, msg)" by (cases d) auto
  from Cons.prems have here: "p \<noteq> cwd w @ [n]" "p \<noteq> cwd w @ [n @ ''.png'']"
    and rest: "\<forall>nm \<in> set (file_names ds). p \<noteq> cwd (after_diagram be w d) @ [nm]"
    by (simp_all add: d file_names_Cons)
  have "fs (foldl (after_diagram be) (after_diagram be w d) ds) p = fs (after_diagram be w d) p"
    by (rule Cons.IH) (rule rest)
  also have "\<dots> = fs w p" using here by (simp add: d fs_after_diagram)
  finally show ?case by simp
qed

lemma fs_foldl_after_image:
  assumes "distinct (file_names ds)" and "(g, n, msg) \<in> set ds"
  shows "fs (foldl (after_diagram be) w ds) (cwd w @ [n @ ''.png'']) = Some (PngFile (the_image be g))
     \<and> fs (foldl (after_diagram be) w ds) (cwd w @ [n]) = None"
  using assms
proof (induction ds arbitrary: w)
  case Nil
  then show ?case by simp
next
  case (Cons d ds)
  obtain g' n' msg' where d: "d = (g', n', msg')" by (cases d) auto
  from Cons.prems(1) have dist: "distinct (file_names ds)"
    and fresh: "n' \<notin> set (file_names ds)" "n' @ ''.png'' \<notin> set (file_names ds)"
    by (simp_all add: d file_names_Cons)
  show ?case
  proof (cases "(g, n, msg) \<in> set ds")
    case True
    with Cons.IH [OF dist, of "after_diagram be w d"] show ?thesis by simp
  next
    case False
    with Cons.prems(2) have eq: "g' = g" "n' = n" "msg' = msg" by (simp_all add: d)
    have a: "\<forall>nm \<in> set (file_names ds). cwd w @ [n @ ''.png''] \<noteq> cwd (after_diagram be w d) @ [nm]"
      using fresh eq by auto
    have b: "\<forall>nm \<in> set (file_names ds). cwd w @ [n] \<noteq> cwd (after_diagram be w d) @ [nm]"
      using fresh eq by auto
    show ?thesis
      using fs_foldl_after_other [OF a, of be] fs_foldl_after_other [OF b, of be]
      by (simp add: d eq fs_after_diagram)
  qed
qed

lemma can_render_foldl_after:
  assumes "n \<notin> set (file_names ds)" and "n @ ''.png'' \<notin> set (file_names ds)"
  shows "can_render be (os_fault w) (fs (foldl (after_diagram be) w ds)) (cwd w) (g, n, msg) =
     can_render be (os_fault w) (fs w) (cwd w) (g, n, msg)"
proof -
  have a: "\<forall>nm \<in> set (file_names ds). cwd w @ [n] \<noteq> cwd w @ [nm]"
    using assms by auto
  have b: "\<forall>nm \<in> set (file_names ds). cwd w @ [n @ ''.png''] \<noteq> cwd w @ [nm]"
    using assms by auto
  show ?thesis
    by (simp add: can_render_def fs_foldl_after_other [OF a] fs_foldl_after_other [OF b])
qed

text \<open>If every diagram of the list can be rendered to start with, all the routines succeed.\<close>

lemma create_diagrams_ok:
  assumes "distinct (file_names ds)" and "list_all (can_render be (os_fault w) (fs w) (cwd w)) ds"
  shows "create_diagrams be ds w = (None, foldl (after_diagram be) w ds)"
  using assms
proof (induction ds arbitrary: w)
  case Nil
  show ?case by simp
next
  case (Cons d ds)
  obtain g n msg where d: "d = (g, n, msg)" by (cases d) auto
  from Cons.prems(1) have dist: "distinct (file_names ds)"
    and fresh: "n \<notin> set (file_names ds)" "n @ ''.png'' \<notin> set (file_names ds)"
    by (simp_all add: d file_names_Cons)
  from Cons.prems(2) have here: "can_render be (os_fault w) (fs w) (cwd w) (g, n, msg)"
    and rest: "list_all (can_render be (os_fault w) (fs w) (cwd w)) ds"
    by (simp_all add: d)
  have "list_all (can_render be (os_fault w) (fs (after_diagram be w d)) (cwd (after_diagram be w d))) ds"
    unfolding list_all_iff
  proof
    fix d' assume d': "d' \<in> set ds"
    obtain g' n' msg' where e: "d' = (g', n', msg')" by (cases d') auto
    from d' e file_names_member [of g' n' msg' ds]
    have "n' \<in> set (file_names ds)" "n' @ ''.png'' \<in> set (file_names ds)" by simp_all
    with fresh have "n' \<noteq> n" "n' \<noteq> n @ ''.png''" "n' @ ''.png'' \<noteq> n" by auto
    then have "can_render be (os_fault w) (fs (after_diagram be w (g, n, msg))) (cwd w) (g', n', msg') =
        can_render be (os_fault w) (fs w) (cwd w) (g', n', msg')"
      by (intro can_render_after_diagram)
    moreover from rest d' e have "can_render be (os_fault w) (fs w) (cwd w) (g', n', msg')"
      by (simp add: list_all_iff)
    ultimately show "can_render be (os_fault w) (fs (after_diagram be w d)) (cwd (after_diagram be w d)) d'"
      by (simp add: d e)
  qed
  then have "list_all (can_render be (os_fault (after_diagram be w d))
      (fs (after_diagram be w d)) (cwd (after_diagram be w d))) ds"
    by simp
  with dist have "create_diagrams be ds (after_diagram be w d) =
      (None, foldl (after_diagram be) (after_diagram be w d) ds)"
    by (rule Cons.IH)
  then show ?case
    by (simp add: d seq_def [of "seq (render be g n ''png'') (print msg)"] create_ok [OF here])
qed

lemma create_diagrams_append:
  "create_diagrams be (xs @ ys) w = seq (create_diagrams be xs) (create_diagrams be ys) w"
proof (induction xs arbitrary: w)
  case Nil
  show ?case by (simp add: seq_def)
next
  case (Cons d xs)
  obtain g n msg where d: "d = (g, n, msg)" by (cases d) auto
  show ?case
    by (simp add: d Cons.IH seq_def split: prod.splits option.splits)
qed

text \<open>
  If a diagram of the list cannot be rendered and the ones before it can, the routines
  before it succeed and its own raises: the lines and images of the routines before are
  there, and the layout program has been invoked once for each of them, and at most
  once more.
\<close>

lemma create_diagrams_fail:
  assumes dist: "distinct (file_names ds)" and k: "k < length ds"
    and before: "list_all (can_render be (os_fault w) (fs w) (cwd w)) (take k ds)"
    and at: "\<not> can_render be (os_fault w) (fs w) (cwd w) (ds ! k)"
  shows "\<exists>err w'. create_diagrams be ds w = (Some err, w') \<and>
     cwd w' = cwd w \<and>
     stdout w' = stdout w @ map (\<lambda>(g, n, msg). msg) (take k ds) \<and>
     (\<forall>(g, n, msg) \<in> set (take k ds).
        fs w' (cwd w @ [n @ ''.png'']) = Some (PngFile (the_image be g))) \<and>
     (\<forall>p. (\<forall>nm \<in> set (file_names (take (Suc k) ds)). p \<noteq> cwd w @ [nm]) \<longrightarrow> fs w' p = fs w p) \<and>
     (dot_calls w' = dot_calls w @ map (\<lambda>(g, n, msg). cwd w @ [n]) (take k ds) \<or>
      dot_calls w' = dot_calls w @ map (\<lambda>(g, n, msg). cwd w @ [n]) (take (Suc k) ds))"
proof -
  obtain g n msg where d: "ds ! k = (g, n, msg)" by (cases "ds ! k") auto
  let ?pre = "take k ds"
  let ?wk = "foldl (after_diagram be) w ?pre"
  from k have split: "ds = ?pre @ (g, n, msg) # drop (Suc k) ds"
    by (simp add: d [symmetric] id_take_nth_drop)
  from dist have "distinct (file_names ?pre @ file_names ((g, n, msg) # drop (Suc k) ds))"
    by (subst (asm) split) (simp only: file_names_append)
  then have dpre: "distinct (file_names ?pre)"
    and fresh: "n \<notin> set (file_names ?pre)" "n @ ''.png'' \<notin> set (file_names ?pre)"
    by (auto simp: file_names_Cons)
  have pre: "create_diagrams be ?pre w = (None, ?wk)"
    using dpre before by (rule create_diagrams_ok)
  have "\<not> can_render be (os_fault ?wk) (fs ?wk) (cwd ?wk) (g, n, msg)"
    using at by (simp add: d can_render_foldl_after [OF fresh])
  then obtain err w' where step: "seq (render be g n ''png'') (print msg) ?wk = (Some err, w')"
    and c: "cwd w' = cwd ?wk" and s: "stdout w' = stdout ?wk"
    and f: "\<forall>p. p \<noteq> cwd ?wk @ [n] \<and> p \<noteq> cwd ?wk @ [n @ ''.png''] \<longrightarrow> fs w' p = fs ?wk p"
    and dc: "dot_calls w' = dot_calls ?wk \<or> dot_calls w' = dot_calls ?wk @ [cwd ?wk @ [n]]"
    using create_fail [of be ?wk g n msg] by blast
  have "create_diagrams be ds w =
      seq (create_diagrams be ?pre) (create_diagrams be ((g, n, msg) # drop (Suc k) ds)) w"
    by (subst split) (rule create_diagrams_append)
  also have "\<dots> = (Some err, w')"
    by (simp add: seq_def [of "create_diagrams be ?pre"] pre
        seq_def [of "seq (render be g n ''png'') (print msg)"] step)
  finally have run: "create_diagrams be ds w = (Some err, w')" .
  have images: "\<forall>(g', n', msg') \<in> set ?pre.
      fs w' (cwd w @ [n' @ ''.png'']) = Some (PngFile (the_image be g'))"
  proof (clarify)
    fix g' n' msg' assume m: "(g', n', msg') \<in> set ?pre"
    with file_names_member [of g' n' msg' ?pre] fresh
    have "n' @ ''.png'' \<noteq> n" "n' @ ''.png'' \<noteq> n @ ''.png''" by auto
    with f have "fs w' (cwd w @ [n' @ ''.png'']) = fs ?wk (cwd w @ [n' @ ''.png''])" by simp
    also have "\<dots> = Some (PngFile (the_image be g'))"
      using fs_foldl_after_image [OF dpre m] by simp
    finally show "fs w' (cwd w @ [n' @ ''.png'']) = Some (PngFile (the_image be g'))" .
  qed
  have take_Suc: "take (Suc k) ds = ?pre @ [(g, n, msg)]"
    using k by (simp add: take_Suc_conv_app_nth d)
  have calls: "dot_calls w' = dot_calls w @ map (\<lambda>(g, n, msg). cwd w @ [n]) ?pre \<or>
      dot_calls w' = dot_calls w @ map (\<lambda>(g, n, msg). cwd w @ [n]) (take (Suc k) ds)"
    using dc by (auto simp: dot_calls_foldl_after take_Suc)
  have others: "\<forall>p. (\<forall>nm \<in> set (file_names (take (Suc k) ds)). p \<noteq> cwd w @ [nm]) \<longrightarrow>
      fs w' p = fs w p"
  proof (intro allI impI)
    fix p assume p: "\<forall>nm \<in> set (file_names (take (Suc k) ds)). p \<noteq> cwd w @ [nm]"
    then have "p \<noteq> cwd w @ [n]" "p \<noteq> cwd w @ [n @ ''.png'']"
      and pre': "\<forall>nm \<in> set (file_names ?pre). p \<noteq> cwd w @ [nm]"
      by (simp_all add: take_Suc file_names_append file_names_Cons)
    with f have "fs w' p = fs ?wk p" by simp
    also have "\<dots> = fs w p" using pre' by (rule fs_foldl_after_other)
    finally show "fs w' p = fs w p" .
  qed
  show ?thesis
    using run c s images others calls by (auto simp: stdout_foldl_after)
qed

subsection \<open>The orchestration\<close>

lemma seq_assoc: "seq (seq a b) c = seq a (seq b c)"
  by (rule ext) (simp add: seq_def split: prod.splits option.splits)

lemma seq_skip: "seq a (\<lambda>w. (None, w)) = a"
  by (rule ext) (simp add: seq_def split: prod.splits option.splits)

lemma create_diagrams_Cons:
  "create_diagrams be ((g, n, msg) # ds) =
     seq (seq (render be g n ''png'') (print msg)) (create_diagrams be ds)"
  by (rule ext) simp

lemma create_diagrams_Nil: "create_diagrams be [] = (\<lambda>w. (None, w))"
  by (rule ext) simp

text \<open>The body of \<^verbatim>\<open>main\<close> runs the routines of \<open>diagrams\<close>, in this order.\<close>

lemma main_try_diagrams:
  "main_try be =
     seq (os_makedirs ''diagrams'' True)
    (seq (os_chdir ''diagrams'')
    (seq (create_diagrams be diagrams) (print success_line)))"
  by (simp only: main_try_def diagrams_def success_line_def create_diagrams_Cons
      create_diagrams_Nil seq_assoc seq_skip create_image_classifier_diagram_def
      create_text_analyzer_diagram_def create_data_predictor_diagram_def
      create_templates_overview_def)

lemma distinct_file_names_diagrams: "distinct (file_names diagrams)"
  by (simp add: diagrams_def file_names_def)

lemma length_diagrams: "length diagrams = 4"
  by (simp add: diagrams_def)

lemma cwd_entered [simp]: "cwd (entered w) = output_dir w"
  by (simp add: entered_def)

lemma os_fault_entered [simp]: "os_fault (entered w) = os_fault w"
  by (simp add: entered_def)

lemma stdout_entered [simp]: "stdout (entered w) = stdout w"
  by (simp add: entered_def)

lemma dot_calls_entered [simp]: "dot_calls (entered w) = dot_calls w"
  by (simp add: entered_def)

lemma fs_entered:
  "fs (entered w) p = (if p = output_dir w then Some Directory else fs w p)"
  by (simp add: entered_def)

lemma can_render_entered:
  "can_render be (os_fault w) (fs (entered w)) (output_dir w) = can_render be (os_fault w) (fs w) (output_dir w)"
  by (rule ext) (simp add: can_render_def fs_entered split: prod.splits)

text \<open>
  The output directory: created when nothing has its name, accepted when it is there
  already, and in both cases entered, unless the operating system refuses; anything
  else in its place is a FileExistsError.
\<close>

lemma enter_ok:
  assumes "can_enter w"
  shows "seq (os_makedirs ''diagrams'' True) (seq (os_chdir ''diagrams'') rest) w = rest (entered w)"
proof -
  from assms have m: "os_fault w (Makedirs (cwd w @ [''diagrams''])) = None"
    and c: "os_fault w (Chdir (cwd w @ [''diagrams''])) = None"
    and dir: "fs w (output_dir w) = None \<or> fs w (output_dir w) = Some Directory"
    by (simp_all add: can_enter_def output_dir_def)
  from dir show ?thesis
  proof
    assume "fs w (output_dir w) = None"
    then show ?thesis
      by (simp add: seq_def os_makedirs_def os_chdir_def entered_def output_dir_def m c)
  next
    assume d: "fs w (output_dir w) = Some Directory"
    then have "(fs w)(output_dir w \<mapsto> Directory) = fs w" by (rule map_upd_triv)
    with d show ?thesis
      by (simp add: seq_def os_makedirs_def os_chdir_def entered_def output_dir_def m c)
  qed
qed

text \<open>A call of \<^verbatim>\<open>makedirs\<close> that the operating system refuses ends the run at once.\<close>

lemma makedirs_refused:
  assumes "os_fault w (Makedirs (output_dir w)) = Some err"
  shows "main_try be w = (Some err, w)"
  using assms by (simp add: main_try_diagrams seq_def os_makedirs_def output_dir_def)

lemma enter_fail:
  assumes "os_fault w (Makedirs (output_dir w)) = None"
    and "fs w (output_dir w) = Some f" and "f \<noteq> Directory"
  shows "main_try be w = (Some (FileExistsError ''diagrams''), w)"
  using assms
  by (cases f) (simp_all add: main_try_diagrams seq_def os_makedirs_def output_dir_def)

text \<open>
  When the output directory cannot be entered, the run ends before any routine: nothing
  is printed and the layout program is not invoked.
\<close>

lemma not_entered:
  assumes "\<not> can_enter w"
  shows "\<exists>err w'. main_try be w = (Some err, w') \<and> stdout w' = stdout w \<and>
     dot_calls w' = dot_calls w \<and> cwd w' = cwd w \<and>
     (\<forall>p. p \<noteq> output_dir w \<longrightarrow> fs w' p = fs w p)"
proof (cases "os_fault w (Makedirs (output_dir w))")
  case (Some err)
  then have "main_try be w = (Some err, w)" by (rule makedirs_refused)
  then show ?thesis by simp
next
  case None
  show ?thesis
  proof (cases "fs w (output_dir w) = None \<or> fs w (output_dir w) = Some Directory")
    case False
    then obtain f where "fs w (output_dir w) = Some f" "f \<noteq> Directory" by auto
    with None have "main_try be w = (Some (FileExistsError ''diagrams''), w)"
      by (rule enter_fail)
    then show ?thesis by simp
  next
    case True
    with None assms obtain err where "os_fault w (Chdir (output_dir w)) = Some err"
      by (auto simp: can_enter_def)
    with None True show ?thesis
      by (auto simp: main_try_diagrams seq_def os_makedirs_def os_chdir_def output_dir_def)
  qed
qed

text \<open>A run goes through exactly when \<open>all_ok\<close> holds; this is what it leaves.\<close>

lemma main_try_ok:
  assumes "all_ok be w"
  shows "main_try be w =
     (None, (foldl (after_diagram be) (entered w) diagrams)
              \<lparr>stdout := stdout w @ map (\<lambda>(g, n, msg). msg) diagrams @ [success_line]\<rparr>)"
proof -
  from assms have dir: "can_enter w"
    and each: "list_all (can_render be (os_fault w) (fs w) (output_dir w)) diagrams"
    by (simp_all add: all_ok_def)
  from each
  have "list_all (can_render be (os_fault (entered w)) (fs (entered w)) (cwd (entered w))) diagrams"
    by (simp add: can_render_entered)
  with distinct_file_names_diagrams
  have run: "create_diagrams be diagrams (entered w) =
      (None, foldl (after_diagram be) (entered w) diagrams)"
    by (rule create_diagrams_ok)
  show ?thesis
    by (simp add: main_try_diagrams enter_ok [OF dir] seq_def [of "create_diagrams be diagrams"]
        run print_def stdout_foldl_after)
qed

lemma first_failure:
  assumes "\<not> list_all P xs"
  shows "\<exists>k < length xs. list_all P (take k xs) \<and> \<not> P (xs ! k)"
  using assms
proof (induction xs)
  case Nil
  then show ?case by simp
next
  case (Cons x xs)
  show ?case
  proof (cases "P x")
    case False
    then have "0 < length (x # xs) \<and> list_all P (take 0 (x # xs)) \<and> \<not> P ((x # xs) ! 0)"
      by simp
    then show ?thesis by blast
  next
    case True
    with Cons.prems have "\<not> list_all P xs" by simp
    then obtain k where "k < length xs" "list_all P (take k xs)" "\<not> P (xs ! k)"
      using Cons.IH by blast
    with True have "Suc k < length (x # xs) \<and> list_all P (take (Suc k) (x # xs))
        \<and> \<not> P ((x # xs) ! Suc k)"
      by simp
    then show ?thesis by blast
  qed
qed

text \<open>
  A run in which the routine of diagram \<open>k\<close> is the first to fail: the directory is
  entered, the routines before have left their lines and images, the layout program
  has been invoked once for each of them in order and at most once more, and nothing
  outside the files of these routines has changed.
\<close>

lemma main_try_fail_at:
  assumes dir: "can_enter w"
    and k: "k < length diagrams"
    and before: "list_all (can_render be (os_fault w) (fs w) (output_dir w)) (take k diagrams)"
    and at: "\<not> can_render be (os_fault w) (fs w) (output_dir w) (diagrams ! k)"
  shows "\<exists>err w'. main_try be w = (Some err, w') \<and>
     cwd w' = output_dir w \<and>
     fs w' (output_dir w) = Some Directory \<and>
     stdout w' = stdout w @ map (\<lambda>(g, n, msg). msg) (take k diagrams) \<and>
     (\<forall>(g, n, msg) \<in> set (take k diagrams).
        fs w' (output_dir w @ [n @ ''.png'']) = Some (PngFile (the_image be g))) \<and>
     (dot_calls w' = dot_calls w @ map (\<lambda>(g, n, msg). output_dir w @ [n]) (take k diagrams) \<or>
      dot_calls w' = dot_calls w @ map (\<lambda>(g, n, msg). output_dir w @ [n]) (take (Suc k) diagrams))"
proof -
  from before
  have b: "list_all (can_render be (os_fault (entered w)) (fs (entered w)) (cwd (entered w)))
      (take k diagrams)"
    by (simp add: can_render_entered)
  from at
  have a: "\<not> can_render be (os_fault (entered w)) (fs (entered w)) (cwd (entered w)) (diagrams ! k)"
    by (simp add: can_render_entered)
  obtain err w' where run: "create_diagrams be diagrams (entered w) = (Some err, w')"
    and c: "cwd w' = cwd (entered w)"
    and s: "stdout w' = stdout (entered w) @ map (\<lambda>(g, n, msg). msg) (take k diagrams)"
    and i: "\<forall>(g, n, msg) \<in> set (take k diagrams).
        fs w' (cwd (entered w) @ [n @ ''.png'']) = Some (PngFile (the_image be g))"
    and o: "\<forall>p. (\<forall>nm \<in> set (file_names (take (Suc k) diagrams)). p \<noteq> cwd (entered w) @ [nm]) \<longrightarrow>
        fs w' p = fs (entered w) p"
    and dc: "dot_calls w' = dot_calls (entered w) @
          map (\<lambda>(g, n, msg). cwd (entered w) @ [n]) (take k diagrams) \<or>
        dot_calls w' = dot_calls (entered w) @
          map (\<lambda>(g, n, msg). cwd (entered w) @ [n]) (take (Suc k) diagrams)"
    using create_diagrams_fail [OF distinct_file_names_diagrams k b a] by blast
  have m: "main_try be w = (Some err, w')"
    by (simp add: main_try_diagrams enter_ok [OF dir] seq_def [of "create_diagrams be diagrams"] run)
  have "\<forall>nm \<in> set (file_names (take (Suc k) diagrams)). output_dir w \<noteq> cwd (entered w) @ [nm]"
    by simp
  with o have "fs w' (output_dir w) = fs (entered w) (output_dir w)" by blast
  then have d: "fs w' (output_dir w) = Some Directory" by (simp add: fs_entered)
  show ?thesis
    using m c s i d dc by (intro exI [of _ err] exI [of _ w']) simp
qed
subsection \<open>Exit status\<close>

lemma main_ok:
  assumes "all_ok be w"
  shows "main be w =
     (0, (foldl (after_diagram be) (entered w) diagrams)
           \<lparr>stdout := stdout w @ map (\<lambda>(g, n, msg). msg) diagrams @ [success_line]\<rparr>)"
  by (simp add: main_def main_try_ok [OF assms])

lemma main_try_not_ok:
  assumes "\<not> all_ok be w"
  shows "\<exists>err w'. main_try be w = (Some err, w') \<and>
     (\<exists>k \<le> 4. dot_calls w' = dot_calls w @ map (\<lambda>(g, n, msg). output_dir w @ [n]) (take k diagrams))"
proof (cases "can_enter w")
  case dir: True
  with assms have "\<not> list_all (can_render be (os_fault w) (fs w) (output_dir w)) diagrams"
    by (simp add: all_ok_def)
  then obtain k where k: "k < length diagrams"
    and before: "list_all (can_render be (os_fault w) (fs w) (output_dir w)) (take k diagrams)"
    and at: "\<not> can_render be (os_fault w) (fs w) (output_dir w) (diagrams ! k)"
    using first_failure by blast
  obtain err w' where m: "main_try be w = (Some err, w')"
    and dc: "dot_calls w' = dot_calls w @ map (\<lambda>(g, n, msg). output_dir w @ [n]) (take k diagrams) \<or>
      dot_calls w' = dot_calls w @ map (\<lambda>(g, n, msg). output_dir w @ [n]) (take (Suc k) diagrams)"
    using main_try_fail_at [OF dir k before at] by blast
  from k have "k \<le> 4" "Suc k \<le> 4" by (simp_all add: length_diagrams)
  with dc have "\<exists>j \<le> 4. dot_calls w' =
      dot_calls w @ map (\<lambda>(g, n, msg). output_dir w @ [n]) (take j diagrams)"
    by blast
  with m show ?thesis by blast
next
  case False
  then obtain err w' where "main_try be w = (Some err, w')" and "dot_calls w' = dot_calls w"
    using not_entered by blast
  moreover have "dot_calls w = dot_calls w @ map (\<lambda>(g, n, msg). output_dir w @ [n]) (take 0 diagrams)"
    by simp
  ultimately have "main_try be w = (Some err, w') \<and> (0::nat) \<le> 4 \<and>
      dot_calls w' = dot_calls w @ map (\<lambda>(g, n, msg). output_dir w @ [n]) (take 0 diagrams)"
    by simp
  then show ?thesis by blast
qed

lemma main_raised:
  assumes "main_try be w = (Some err, w')"
  shows "main be w = (1, w'\<lparr>stdout := stdout w' @ [error_line err]\<rparr>)"
  by (simp add: main_def assms print_def error_line_def)

lemma main_status: "fst (main be w) = (if all_ok be w then 0 else 1)"
proof (cases "all_ok be w")
  case True
  then show ?thesis by (simp add: main_ok)
next
  case False
  then obtain err w' where "main_try be w = (Some err, w')"
    using main_try_not_ok by blast
  with False show ?thesis by (simp add: main_raised)
qed

lemma fs_main_ok:
  assumes "all_ok be w"
  shows "fs (snd (main be w)) (output_dir w) = Some Directory"
    and "\<forall>(g, n, msg) \<in> set diagrams.
      fs (snd (main be w)) (output_dir w @ [n @ ''.png'']) = Some (PngFile (the_image be g)) \<and>
      fs (snd (main be w)) (output_dir w @ [n]) = None"
proof -
  have "\<forall>nm \<in> set (file_names diagrams). output_dir w \<noteq> cwd (entered w) @ [nm]" by simp
  then have "fs (foldl (after_diagram be) (entered w) diagrams) (output_dir w) =
      fs (entered w) (output_dir w)"
    by (rule fs_foldl_after_other)
  then show "fs (snd (main be w)) (output_dir w) = Some Directory"
    by (simp add: main_ok [OF assms] fs_entered)
  show "\<forall>(g, n, msg) \<in> set diagrams.
      fs (snd (main be w)) (output_dir w @ [n @ ''.png'']) = Some (PngFile (the_image be g)) \<and>
      fs (snd (main be w)) (output_dir w @ [n]) = None"
  proof (clarify)
    fix g n msg assume "(g, n, msg) \<in> set diagrams"
    with distinct_file_names_diagrams
    have "fs (foldl (after_diagram be) (entered w) diagrams) (cwd (entered w) @ [n @ ''.png''])
        = Some (PngFile (the_image be g)) \<and>
      fs (foldl (after_diagram be) (entered w) diagrams) (cwd (entered w) @ [n]) = None"
      by (rule fs_foldl_after_image)
    then show "fs (snd (main be w)) (output_dir w @ [n @ ''.png'']) = Some (PngFile (the_image be g)) \<and>
      fs (snd (main be w)) (output_dir w @ [n]) = None"
      by (simp add: main_ok [OF assms])
  qed
qed

text \<open>
  Claim C3. The orchestration routine returns 0 or 1. It returns 0 exactly when the
  output directory can be entered (the operating system refuses neither its creation
  nor the change of directory, and its name is free or that of a directory, which is
  accepted) and every diagram can be rendered; then the directory exists and is the
  working directory, the layout program has been invoked for the four diagrams in the
  order image classifier, text analyzer, data predictor, overview, and each routine has
  printed its line, followed by the final confirmation. In every other case an exception
  is caught: the routine returns 1 and the last line printed is the error message, the
  layout program having been invoked for a first part of the four only. In particular
  it returns 1 when a file that is not a directory has the name of the output directory,
  with the message of the FileExistsError unless the operating system has refused the
  call for another reason; and it returns 1, with the message of the exception, when
  the operating system refuses to create the directory, as in a directory that cannot
  be written.
\<close>

theorem main_orchestration:
  "(fst (main be w) = 0 \<or> fst (main be w) = 1) \<and>
   (fst (main be w) = 0) = all_ok be w \<and>
   (all_ok be w \<longrightarrow>
      (\<exists>w'. main be w = (0, w') \<and>
         fs w' (output_dir w) = Some Directory \<and> cwd w' = output_dir w \<and>
         dot_calls w' = dot_calls w @ map (\<lambda>(g, n, msg). output_dir w @ [n]) diagrams \<and>
         stdout w' = stdout w @ map (\<lambda>(g, n, msg). msg) diagrams @ [success_line] \<and>
         (\<forall>(g, n, msg) \<in> set diagrams.
            fs w' (output_dir w @ [n @ ''.png'']) = Some (PngFile (the_image be g))))) \<and>
   (\<not> all_ok be w \<longrightarrow>
      (\<exists>err w'. main_try be w = (Some err, w') \<and>
         main be w = (1, w'\<lparr>stdout := stdout w' @ [error_line err]\<rparr>) \<and>
         (\<exists>k \<le> 4. dot_calls w' =
            dot_calls w @ map (\<lambda>(g, n, msg). output_dir w @ [n]) (take k diagrams)))) \<and>
   (\<forall>f. fs w (output_dir w) = Some f \<and> f \<noteq> Directory \<longrightarrow>
      fst (main be w) = 1 \<and>
      (os_fault w (Makedirs (output_dir w)) = None \<longrightarrow>
         main be w = (1, w\<lparr>stdout := stdout w @
           [''Error creating diagrams: [Errno 17] File exists: '' @ repr ''diagrams'']\<rparr>))) \<and>
   (\<forall>err. os_fault w (Makedirs (output_dir w)) = Some err \<longrightarrow>
      main be w = (1, w\<lparr>stdout := stdout w @ [''Error creating diagrams: '' @ str_error err]\<rparr>)) \<and>
   map (\<lambda>(g, n, msg). n) diagrams =
     [''burn-image-classifier-diagram'', ''burn-text-analyzer-diagram'',
      ''burn-data-predictor-diagram'', ''burn-templates-overview'']"
proof (intro conjI impI allI)
  show "fst (main be w) = 0 \<or> fst (main be w) = 1" by (simp add: main_status)
  show "(fst (main be w) = 0) = all_ok be w" by (simp add: main_status)
  show "map (\<lambda>(g, n, msg). n) diagrams =
     [''burn-image-classifier-diagram'', ''burn-text-analyzer-diagram'',
      ''burn-data-predictor-diagram'', ''burn-templates-overview'']"
    by (simp add: diagrams_def)
next
  assume ok: "all_ok be w"
  let ?w' = "snd (main be w)"
  have m: "main be w = (0, ?w')" by (simp add: main_ok [OF ok])
  have "cwd ?w' = output_dir w" by (simp add: main_ok [OF ok])
  moreover have "dot_calls ?w' = dot_calls w @ map (\<lambda>(g, n, msg). output_dir w @ [n]) diagrams"
    by (simp add: main_ok [OF ok] dot_calls_foldl_after)
  moreover have "stdout ?w' = stdout w @ map (\<lambda>(g, n, msg). msg) diagrams @ [success_line]"
    by (simp add: main_ok [OF ok])
  moreover have "\<forall>(g, n, msg) \<in> set diagrams.
      fs ?w' (output_dir w @ [n @ ''.png'']) = Some (PngFile (the_image be g))"
    using fs_main_ok(2) [OF ok] by blast
  ultimately show "\<exists>w'. main be w = (0, w') \<and>
         fs w' (output_dir w) = Some Directory \<and> cwd w' = output_dir w \<and>
         dot_calls w' = dot_calls w @ map (\<lambda>(g, n, msg). output_dir w @ [n]) diagrams \<and>
         stdout w' = stdout w @ map (\<lambda>(g, n, msg). msg) diagrams @ [success_line] \<and>
         (\<forall>(g, n, msg) \<in> set diagrams.
            fs w' (output_dir w @ [n @ ''.png'']) = Some (PngFile (the_image be g)))"
    using m fs_main_ok(1) [OF ok] by blast
next
  assume "\<not> all_ok be w"
  then obtain err w' where m: "main_try be w = (Some err, w')"
    and k: "\<exists>k \<le> 4. dot_calls w' =
        dot_calls w @ map (\<lambda>(g, n, msg). output_dir w @ [n]) (take k diagrams)"
    using main_try_not_ok by blast
  from m have "main be w = (1, w'\<lparr>stdout := stdout w' @ [error_line err]\<rparr>)"
    by (rule main_raised)
  with m k show "\<exists>err w'. main_try be w = (Some err, w') \<and>
         main be w = (1, w'\<lparr>stdout := stdout w' @ [error_line err]\<rparr>) \<and>
         (\<exists>k \<le> 4. dot_calls w' =
            dot_calls w @ map (\<lambda>(g, n, msg). output_dir w @ [n]) (take k diagrams))"
    by blast
next
  fix f assume "fs w (output_dir w) = Some f \<and> f \<noteq> Directory"
  then have "\<not> all_ok be w" by (auto simp: all_ok_def can_enter_def)
  then show "fst (main be w) = 1" by (simp add: main_status)
next
  fix f assume "fs w (output_dir w) = Some f \<and> f \<noteq> Directory"
    and "os_fault w (Makedirs (output_dir w)) = None"
  then have "main_try be w = (Some (FileExistsError ''diagrams''), w)"
    using enter_fail by blast
  then show "main be w = (1, w\<lparr>stdout := stdout w @
        [''Error creating diagrams: [Errno 17] File exists: '' @ repr ''diagrams'']\<rparr>)"
    by (simp add: main_raised error_line_def)
next
  fix err assume "os_fault w (Makedirs (output_dir w)) = Some err"
  then have "main_try be w = (Some err, w)" by (rule makedirs_refused)
  then show "main be w = (1, w\<lparr>stdout := stdout w @ [''Error creating diagrams: '' @ str_error err]\<rparr>)"
    by (simp add: main_raised error_line_def)
qed

text \<open>
  Instances: a run in an empty directory with a layout program that always succeeds, a
  run with one that always fails, a run where a plain file is named \<^verbatim>\<open>diagrams\<close>, and a
  run in a directory where the operating system denies the creation of \<^verbatim>\<open>diagrams\<close>.
\<close>

theorem main_orchestration_witness:
  "fst (main (\<lambda>g. Inr ''png'')
     \<lparr>fs = Map.empty, cwd = [''home''], stdout = [], dot_calls = [], os_fault = \<lambda>c. None\<rparr>) = 0 \<and>
   fst (main (\<lambda>g. Inl ''no dot'')
     \<lparr>fs = Map.empty, cwd = [''home''], stdout = [], dot_calls = [], os_fault = \<lambda>c. None\<rparr>) = 1 \<and>
   main (\<lambda>g. Inr ''png'')
     \<lparr>fs = [[''home'', ''diagrams''] \<mapsto> DataFile ''text''], cwd = [''home''], stdout = [],
      dot_calls = [], os_fault = \<lambda>c. None\<rparr> =
     (1, \<lparr>fs = [[''home'', ''diagrams''] \<mapsto> DataFile ''text''], cwd = [''home''],
          stdout = [''Error creating diagrams: [Errno 17] File exists: '' @ repr ''diagrams''],
          dot_calls = [], os_fault = \<lambda>c. None\<rparr>) \<and>
   main (\<lambda>g. Inr ''png'')
     \<lparr>fs = Map.empty, cwd = [''home''], stdout = [], dot_calls = [],
      os_fault = \<lambda>c. if c = Makedirs [''home'', ''diagrams'']
                        then Some (PermissionError ''diagrams'') else None\<rparr> =
     (1, \<lparr>fs = Map.empty, cwd = [''home''],
          stdout = [''Error creating diagrams: [Errno 13] Permission denied: '' @ repr ''diagrams''],
          dot_calls = [],
          os_fault = \<lambda>c. if c = Makedirs [''home'', ''diagrams'']
                        then Some (PermissionError ''diagrams'') else None\<rparr>)"
proof (intro conjI)
  let ?w = "\<lparr>fs = Map.empty, cwd = [''home''], stdout = [], dot_calls = [], os_fault = \<lambda>c. None\<rparr>"
  have "all_ok (\<lambda>g. Inr ''png'') ?w"
    by (simp add: all_ok_def can_enter_def can_render_def diagrams_def output_dir_def)
  with main_orchestration [of "\<lambda>g. Inr ''png''" ?w]
  show "fst (main (\<lambda>g. Inr ''png'') ?w) = 0" by blast
  have "\<not> all_ok (\<lambda>g. Inl ''no dot'') ?w"
    by (simp add: all_ok_def can_enter_def can_render_def diagrams_def output_dir_def)
  with main_orchestration [of "\<lambda>g. Inl ''no dot''" ?w]
  have "fst (main (\<lambda>g. Inl ''no dot'') ?w) \<noteq> 0" by blast
  with main_orchestration [of "\<lambda>g. Inl ''no dot''" ?w]
  show "fst (main (\<lambda>g. Inl ''no dot'') ?w) = 1" by blast
  let ?v = "\<lparr>fs = [[''home'', ''diagrams''] \<mapsto> DataFile ''text''], cwd = [''home''],
    stdout = [], dot_calls = [], os_fault = \<lambda>c. None\<rparr>"
  have "fs ?v (output_dir ?v) = Some (DataFile ''text'') \<and> DataFile ''text'' \<noteq> Directory"
    and "os_fault ?v (Makedirs (output_dir ?v)) = None"
    by (simp_all add: output_dir_def)
  with main_orchestration [of "\<lambda>g. Inr ''png''" ?v]
  have "main (\<lambda>g. Inr ''png'') ?v = (1, ?v\<lparr>stdout := stdout ?v @
        [''Error creating diagrams: [Errno 17] File exists: '' @ repr ''diagrams'']\<rparr>)"
    by blast
  then show "main (\<lambda>g. Inr ''png'') ?v =
     (1, \<lparr>fs = [[''home'', ''diagrams''] \<mapsto> DataFile ''text''], cwd = [''home''],
          stdout = [''Error creating diagrams: [Errno 17] File exists: '' @ repr ''diagrams''],
          dot_calls = [], os_fault = \<lambda>c. None\<rparr>)"
    by simp
  let ?d = "\<lambda>c. if c = Makedirs [''home'', ''diagrams'']
                        then Some (PermissionError ''diagrams'') else None"
  let ?u = "\<lparr>fs = Map.empty, cwd = [''home''], stdout = [], dot_calls = [], os_fault = ?d\<rparr>"
  have "os_fault ?u (Makedirs (output_dir ?u)) = Some (PermissionError ''diagrams'')"
    by (simp add: output_dir_def)
  with main_orchestration [of "\<lambda>g. Inr ''png''" ?u]
  have "main (\<lambda>g. Inr ''png'') ?u = (1, ?u\<lparr>stdout := stdout ?u @
        [''Error creating diagrams: '' @ str_error (PermissionError ''diagrams'')]\<rparr>)"
    by blast
  then show "main (\<lambda>g. Inr ''png'') ?u =
     (1, \<lparr>fs = Map.empty, cwd = [''home''],
          stdout = [''Error creating diagrams: [Errno 13] Permission denied: '' @ repr ''diagrams''],
          dot_calls = [], os_fault = ?d\<rparr>)"
    by simp
qed

text \<open>
  Claim C8. Rendering is not atomic. If the routine of diagram \<open>k\<close> (counted from 0) is
  the first to fail, the output directory having been entered, then the routine returns
  1, whatever \<open>k\<close>; the routines before have run alone to the end, their image files
  are in the final file system exactly as they left them, and their lines precede the
  error message; and the layout program was invoked once for each of them in order and
  at most once for the failing one: nothing is retried, nothing is cleaned up.
\<close>

theorem partial_failure:
  assumes "can_enter w"
    and "k < 4"
    and "list_all (can_render be (os_fault w) (fs w) (output_dir w)) (take k diagrams)"
    and "\<not> can_render be (os_fault w) (fs w) (output_dir w) (diagrams ! k)"
  shows "\<exists>err w' wk. main be w = (1, w') \<and>
     create_diagrams be (take k diagrams) (entered w) = (None, wk) \<and>
     (\<forall>(g, n, msg) \<in> set (take k diagrams).
        fs wk (output_dir w @ [n @ ''.png'']) = Some (PngFile (the_image be g)) \<and>
        fs w' (output_dir w @ [n @ ''.png'']) = fs wk (output_dir w @ [n @ ''.png''])) \<and>
     stdout w' = stdout w @ map (\<lambda>(g, n, msg). msg) (take k diagrams) @ [error_line err] \<and>
     (dot_calls w' = dot_calls w @ map (\<lambda>(g, n, msg). output_dir w @ [n]) (take k diagrams) \<or>
      dot_calls w' = dot_calls w @ map (\<lambda>(g, n, msg). output_dir w @ [n]) (take (Suc k) diagrams))"
proof -
  from assms(2) have k: "k < length diagrams" by (simp add: length_diagrams)
  obtain err v where m: "main_try be w = (Some err, v)"
    and s: "stdout v = stdout w @ map (\<lambda>(g, n, msg). msg) (take k diagrams)"
    and i: "\<forall>(g, n, msg) \<in> set (take k diagrams).
        fs v (output_dir w @ [n @ ''.png'']) = Some (PngFile (the_image be g))"
    and dc: "dot_calls v = dot_calls w @ map (\<lambda>(g, n, msg). output_dir w @ [n]) (take k diagrams) \<or>
      dot_calls v = dot_calls w @ map (\<lambda>(g, n, msg). output_dir w @ [n]) (take (Suc k) diagrams)"
    using main_try_fail_at [OF assms(1) k assms(3) assms(4)] by blast
  let ?w' = "v\<lparr>stdout := stdout v @ [error_line err]\<rparr>"
  let ?wk = "foldl (after_diagram be) (entered w) (take k diagrams)"
  have run: "main be w = (1, ?w')" using m by (rule main_raised)
  have "distinct (file_names (take k diagrams) @ file_names (drop k diagrams))"
    using distinct_file_names_diagrams
    by (simp only: file_names_append [symmetric] append_take_drop_id)
  then have dist: "distinct (file_names (take k diagrams))" by simp
  have "list_all (can_render be (os_fault (entered w)) (fs (entered w)) (cwd (entered w)))
      (take k diagrams)"
    using assms(3) by (simp add: can_render_entered)
  with dist have pre: "create_diagrams be (take k diagrams) (entered w) = (None, ?wk)"
    by (rule create_diagrams_ok)
  have images: "\<forall>(g, n, msg) \<in> set (take k diagrams).
        fs ?wk (output_dir w @ [n @ ''.png'']) = Some (PngFile (the_image be g)) \<and>
        fs ?w' (output_dir w @ [n @ ''.png'']) = fs ?wk (output_dir w @ [n @ ''.png''])"
  proof (clarify)
    fix g n msg assume d: "(g, n, msg) \<in> set (take k diagrams)"
    with dist have "fs ?wk (cwd (entered w) @ [n @ ''.png'']) = Some (PngFile (the_image be g))"
      using fs_foldl_after_image by blast
    moreover from i d have "fs v (output_dir w @ [n @ ''.png'']) = Some (PngFile (the_image be g))"
      by blast
    ultimately show "fs ?wk (output_dir w @ [n @ ''.png'']) = Some (PngFile (the_image be g)) \<and>
        fs ?w' (output_dir w @ [n @ ''.png'']) = fs ?wk (output_dir w @ [n @ ''.png''])"
      by simp
  qed
  have out: "stdout ?w' = stdout w @ map (\<lambda>(g, n, msg). msg) (take k diagrams) @ [error_line err]"
    by (simp add: s)
  have calls: "dot_calls ?w' = dot_calls w @ map (\<lambda>(g, n, msg). output_dir w @ [n]) (take k diagrams) \<or>
      dot_calls ?w' = dot_calls w @ map (\<lambda>(g, n, msg). output_dir w @ [n]) (take (Suc k) diagrams)"
    using dc by simp
  show ?thesis
    by (rule exI [of _ err], rule exI [of _ ?w'], rule exI [of _ ?wk])
      (intro conjI run pre images out calls)
qed

text \<open>
  An instance: the layout program fails on the third diagram only. The first two images
  are on disk at the end, and the run returns 1.
\<close>

lemma comments:
  "g_comment image_classifier_dot = Some ''Image Classifier Architecture''"
  "g_comment text_analyzer_dot = Some ''Text Analyzer Architecture''"
  "g_comment data_predictor_dot = Some ''Data Predictor Architecture''"
  "g_comment templates_overview_dot = Some ''Burn Templates Overview''"
  by (simp_all add: image_classifier_dot_def text_analyzer_dot_def data_predictor_dot_def
      templates_overview_dot_def Digraph_def attr_def node_def edge_def subgraph_def Let_def)

theorem partial_failure_witness:
  "\<exists>err w'.
     main (\<lambda>g. if g_comment g = Some ''Data Predictor Architecture''
                then Inl ''layout failed'' else Inr ''png'')
       \<lparr>fs = Map.empty, cwd = [''home''], stdout = [], dot_calls = [], os_fault = \<lambda>c. None\<rparr> = (1, w') \<and>
     fs w' [''home'', ''diagrams'', ''burn-image-classifier-diagram.png''] = Some (PngFile ''png'') \<and>
     fs w' [''home'', ''diagrams'', ''burn-text-analyzer-diagram.png''] = Some (PngFile ''png'') \<and>
     stdout w' =
       [''Created image classifier diagram: burn-image-classifier-diagram.png'',
        ''Created text analyzer diagram: burn-text-analyzer-diagram.png'',
        error_line err]"
proof -
  let ?be = "\<lambda>g. if g_comment g = Some ''Data Predictor Architecture''
                then Inl ''layout failed'' else Inr ''png''"
  let ?w = "\<lparr>fs = Map.empty, cwd = [''home''], stdout = [], dot_calls = [], os_fault = \<lambda>c. None\<rparr>"
  have two: "take 2 diagrams =
      [(image_classifier_dot, ''burn-image-classifier-diagram'',
          ''Created image classifier diagram: burn-image-classifier-diagram.png''),
       (text_analyzer_dot, ''burn-text-analyzer-diagram'',
          ''Created text analyzer diagram: burn-text-analyzer-diagram.png'')]"
    by (simp add: diagrams_def)
  have third: "diagrams ! 2 = (data_predictor_dot, ''burn-data-predictor-diagram'',
      ''Created data predictor diagram: burn-data-predictor-diagram.png'')"
    by (simp add: diagrams_def)
  have 1: "can_enter ?w" by (simp add: can_enter_def)
  have 2: "(2::nat) < 4" by simp
  have 3: "list_all (can_render ?be (os_fault ?w) (fs ?w) (output_dir ?w)) (take 2 diagrams)"
    unfolding two by (simp add: can_render_def comments)
  have 4: "\<not> can_render ?be (os_fault ?w) (fs ?w) (output_dir ?w) (diagrams ! 2)"
    unfolding third by (simp add: can_render_def comments)
  obtain err w' and wk :: world where m: "main ?be ?w = (1, w')"
    and i: "\<forall>(g, n, msg) \<in> set (take 2 diagrams).
        fs wk (output_dir ?w @ [n @ ''.png'']) = Some (PngFile (the_image ?be g)) \<and>
        fs w' (output_dir ?w @ [n @ ''.png'']) = fs wk (output_dir ?w @ [n @ ''.png''])"
    and s: "stdout w' = stdout ?w @ map (\<lambda>(g, n, msg). msg) (take 2 diagrams) @ [error_line err]"
    using partial_failure [OF 1 2 3 4] by blast
  from i have "fs w' (output_dir ?w @ [''burn-image-classifier-diagram'' @ ''.png'']) =
      Some (PngFile (the_image ?be image_classifier_dot))"
    unfolding two by simp
  then have a: "fs w' [''home'', ''diagrams'', ''burn-image-classifier-diagram.png''] =
      Some (PngFile ''png'')"
    by (simp add: output_dir_def the_image_def comments)
  from i have "fs w' (output_dir ?w @ [''burn-text-analyzer-diagram'' @ ''.png'']) =
      Some (PngFile (the_image ?be text_analyzer_dot))"
    unfolding two by simp
  then have b: "fs w' [''home'', ''diagrams'', ''burn-text-analyzer-diagram.png''] =
      Some (PngFile ''png'')"
    by (simp add: output_dir_def the_image_def comments)
  from s have c: "stdout w' =
       [''Created image classifier diagram: burn-image-classifier-diagram.png'',
        ''Created text analyzer diagram: burn-text-analyzer-diagram.png'',
        error_line err]"
    unfolding two by simp
  show ?thesis
    by (rule exI [of _ err], rule exI [of _ w']) (intro conjI m a b c)
qed
subsection \<open>Running the renderer again\<close>

lemma file_names_cases:
  "nm \<in> set (file_names ds) \<Longrightarrow> \<exists>g n msg. (g, n, msg) \<in> set ds \<and> (nm = n \<or> nm = n @ ''.png'')"
  by (induction ds) (auto simp: file_names_def)

text \<open>
  After a run that went through, a new run started in the same directory on the file
  system it left goes through as well, provided the layout program succeeds again.
\<close>

lemma all_ok_again:
  assumes ok: "all_ok be w"
    and again: "list_all (\<lambda>(g, n, msg). case be' g of Inl err \<Rightarrow> False | Inr img \<Rightarrow> True) diagrams"
    and v: "cwd v = cwd w" "fs v = fs (snd (main be w))" "os_fault v = os_fault w"
  shows "all_ok be' v"
proof -
  have od: "output_dir v = output_dir w" by (simp add: output_dir_def v(1))
  have "fs v (output_dir v) = Some Directory"
    by (simp only: od v(2) fs_main_ok(1) [OF ok])
  moreover from ok have "can_enter w" by (simp add: all_ok_def)
  ultimately have dir: "can_enter v" by (simp add: can_enter_def od v(3))
  have "can_render be' (os_fault v) (fs v) (output_dir v) d" if d: "d \<in> set diagrams" for d
  proof -
    obtain g n msg where eq: "d = (g, n, msg)" by (cases d) auto
    from ok d have "can_render be (os_fault w) (fs w) (output_dir w) d"
      by (simp add: all_ok_def list_all_iff)
    then have faults: "os_fault v (Write (output_dir v @ [n])) = None"
      "os_fault v (Write (output_dir v @ [n @ ''.png''])) = None"
      "os_fault v (Remove (output_dir v @ [n])) = None"
      by (simp_all add: can_render_def eq od v(3))
    from d eq fs_main_ok(2) [OF ok]
    have "fs v (output_dir v @ [n @ ''.png'']) = Some (PngFile (the_image be g))"
      and "fs v (output_dir v @ [n]) = None"
      unfolding od v(2) by blast+
    moreover from again d eq have "case be' g of Inl err \<Rightarrow> False | Inr img \<Rightarrow> True"
      unfolding list_all_iff by blast
    ultimately show ?thesis using faults by (simp add: can_render_def eq)
  qed
  then have "list_all (can_render be' (os_fault v) (fs v) (output_dir v)) diagrams"
    unfolding list_all_iff by blast
  with dir show ?thesis by (simp add: all_ok_def)
qed

text \<open>A run that goes through changes the file system at the image files only.\<close>

lemma fs_main_ok_other:
  assumes ok: "all_ok be w"
    and dir: "fs w (output_dir w) = Some Directory"
    and src: "\<forall>(g, n, msg) \<in> set diagrams. fs w (output_dir w @ [n]) = None"
    and p: "\<forall>(g, n, msg) \<in> set diagrams. p \<noteq> output_dir w @ [n @ ''.png'']"
  shows "fs (snd (main be w)) p = fs w p"
proof (cases "\<exists>g n msg. (g, n, msg) \<in> set diagrams \<and> p = output_dir w @ [n]")
  case True
  then obtain g n msg where d: "(g, n, msg) \<in> set diagrams" and eq: "p = output_dir w @ [n]"
    by blast
  from d fs_main_ok(2) [OF ok] have "fs (snd (main be w)) (output_dir w @ [n]) = None" by blast
  moreover from d src have "fs w (output_dir w @ [n]) = None" by blast
  ultimately show ?thesis by (simp only: eq)
next
  case False
  have "\<forall>nm \<in> set (file_names diagrams). p \<noteq> cwd (entered w) @ [nm]"
  proof
    fix nm assume "nm \<in> set (file_names diagrams)"
    then obtain g n msg where d: "(g, n, msg) \<in> set diagrams" and nm: "nm = n \<or> nm = n @ ''.png''"
      using file_names_cases by blast
    from d False have "p \<noteq> output_dir w @ [n]" by blast
    moreover from d p have "p \<noteq> output_dir w @ [n @ ''.png'']" by blast
    ultimately show "p \<noteq> cwd (entered w) @ [nm]" using nm by auto
  qed
  then have "fs (foldl (after_diagram be) (entered w) diagrams) p = fs (entered w) p"
    by (rule fs_foldl_after_other)
  also have "\<dots> = fs w p" using dir by (simp add: fs_entered)
  finally show ?thesis by (simp add: main_ok [OF ok])
qed

lemma stdout_main_ok:
  "all_ok be w \<Longrightarrow> stdout (snd (main be w)) = stdout w @ map (\<lambda>(g, n, msg). msg) diagrams @ [success_line]"
  by (simp add: main_ok)

lemma dot_calls_main_ok:
  "all_ok be w \<Longrightarrow>
   dot_calls (snd (main be w)) = dot_calls w @ map (\<lambda>(g, n, msg). output_dir w @ [n]) diagrams"
  by (simp add: main_ok dot_calls_foldl_after)

text \<open>
  Claim C4. Let a first run of the renderer, started in the directory \<open>start\<close>, return
  0, and let the layout program succeed again on the four graphs. Then a second run
  started in the same directory on the file system the first one left, under an
  operating system that refuses the same calls as before, returns 0 too: the
  output directory, which exists, is accepted; the four image files of the first run are
  replaced by those of the second under the same four names; every other path is as the
  first run left it, so that the same paths exist after the second run as after the
  first; and the second run prints the same lines and invokes the layout program on the
  same source files. If the layout program gives the same images, the file system after
  the second run is the one after the first.
\<close>

theorem rerun_idempotent:
  assumes "run_program be faults start files = (0, w1)"
    and "list_all (\<lambda>(g, n, msg). case be' g of Inl err \<Rightarrow> False | Inr img \<Rightarrow> True) diagrams"
  shows "\<exists>w2. run_program be' faults start (fs w1) = (0, w2) \<and>
     fs w1 (start @ [''diagrams'']) = Some Directory \<and>
     fs w2 (start @ [''diagrams'']) = Some Directory \<and>
     (\<forall>(g, n, msg) \<in> set diagrams.
        fs w1 (start @ [''diagrams'', n @ ''.png'']) = Some (PngFile (the_image be g)) \<and>
        fs w2 (start @ [''diagrams'', n @ ''.png'']) = Some (PngFile (the_image be' g))) \<and>
     (\<forall>p. (\<forall>(g, n, msg) \<in> set diagrams. p \<noteq> start @ [''diagrams'', n @ ''.png'']) \<longrightarrow>
        fs w2 p = fs w1 p) \<and>
     dom (fs w2) = dom (fs w1) \<and>
     stdout w2 = stdout w1 \<and> dot_calls w2 = dot_calls w1 \<and>
     ((\<forall>(g, n, msg) \<in> set diagrams. the_image be' g = the_image be g) \<longrightarrow> fs w2 = fs w1)"
proof -
  let ?w0 = "\<lparr>fs = files, cwd = start, stdout = [], dot_calls = [], os_fault = faults\<rparr>"
  let ?v0 = "\<lparr>fs = fs w1, cwd = start, stdout = [], dot_calls = [], os_fault = faults\<rparr>"
  let ?w2 = "snd (main be' ?v0)"
  from assms(1) have run1: "main be ?w0 = (0, w1)" by (simp add: run_program_def)
  have "fst (main be ?w0) = (if all_ok be ?w0 then 0 else 1)" by (rule main_status)
  with run1 have ok1: "all_ok be ?w0" by (simp split: if_splits)
  from run1 have w1: "w1 = snd (main be ?w0)" by simp
  have od1: "output_dir ?w0 = start @ [''diagrams'']" by (simp add: output_dir_def)
  have od2: "output_dir ?v0 = start @ [''diagrams'']" by (simp add: output_dir_def)
  have ok2: "all_ok be' ?v0"
    using ok1 assms(2) by (rule all_ok_again) (simp_all add: w1)
  have run2: "run_program be' faults start (fs w1) = (0, ?w2)"
    by (simp add: run_program_def main_ok [OF ok2])
  have dir1: "fs w1 (start @ [''diagrams'']) = Some Directory"
    using fs_main_ok(1) [OF ok1] by (simp only: od1 w1 [symmetric])
  have dir2: "fs ?w2 (start @ [''diagrams'']) = Some Directory"
    using fs_main_ok(1) [OF ok2] by (simp only: od2)
  have f1: "\<forall>(g, n, msg) \<in> set diagrams.
      fs w1 ((start @ [''diagrams'']) @ [n @ ''.png'']) = Some (PngFile (the_image be g)) \<and>
      fs w1 ((start @ [''diagrams'']) @ [n]) = None"
    using fs_main_ok(2) [OF ok1] by (simp only: od1 w1 [symmetric])
  have f2: "\<forall>(g, n, msg) \<in> set diagrams.
      fs ?w2 ((start @ [''diagrams'']) @ [n @ ''.png'']) = Some (PngFile (the_image be' g)) \<and>
      fs ?w2 ((start @ [''diagrams'']) @ [n]) = None"
    using fs_main_ok(2) [OF ok2] by (simp only: od2)
  have images: "\<forall>(g, n, msg) \<in> set diagrams.
        fs w1 (start @ [''diagrams'', n @ ''.png'']) = Some (PngFile (the_image be g)) \<and>
        fs ?w2 (start @ [''diagrams'', n @ ''.png'']) = Some (PngFile (the_image be' g))"
  proof (clarify)
    fix g n msg assume d: "(g, n, msg) \<in> set diagrams"
    from d f1 have "fs w1 ((start @ [''diagrams'']) @ [n @ ''.png'']) = Some (PngFile (the_image be g))"
      by blast
    moreover from d f2
    have "fs ?w2 ((start @ [''diagrams'']) @ [n @ ''.png'']) = Some (PngFile (the_image be' g))"
      by blast
    ultimately show "fs w1 (start @ [''diagrams'', n @ ''.png'']) = Some (PngFile (the_image be g)) \<and>
        fs ?w2 (start @ [''diagrams'', n @ ''.png'']) = Some (PngFile (the_image be' g))"
      by simp
  qed
  have other: "fs ?w2 p = fs w1 p"
    if p: "\<forall>(g, n, msg) \<in> set diagrams. p \<noteq> start @ [''diagrams'', n @ ''.png'']" for p
  proof -
    have "fs ?v0 (output_dir ?v0) = Some Directory" using dir1 by (simp add: od2)
    moreover have "\<forall>(g, n, msg) \<in> set diagrams. fs ?v0 (output_dir ?v0 @ [n]) = None"
      using f1 by (auto simp: od2)
    moreover have "\<forall>(g, n, msg) \<in> set diagrams. p \<noteq> output_dir ?v0 @ [n @ ''.png'']"
      using p by (auto simp: od2)
    ultimately have "fs (snd (main be' ?v0)) p = fs ?v0 p"
      by (rule fs_main_ok_other [OF ok2])
    then show ?thesis by simp
  qed
  have others: "\<forall>p. (\<forall>(g, n, msg) \<in> set diagrams. p \<noteq> start @ [''diagrams'', n @ ''.png'']) \<longrightarrow>
        fs ?w2 p = fs w1 p"
    using other by blast
  have same: "(fs ?w2 p = None) = (fs w1 p = None)" for p
  proof (cases "\<forall>(g, n, msg) \<in> set diagrams. p \<noteq> start @ [''diagrams'', n @ ''.png'']")
    case True
    then show ?thesis by (simp only: other)
  next
    case False
    then obtain g n msg where d: "(g, n, msg) \<in> set diagrams"
      and eq: "p = start @ [''diagrams'', n @ ''.png'']"
      by blast
    from d images have "fs w1 p = Some (PngFile (the_image be g))"
      and "fs ?w2 p = Some (PngFile (the_image be' g))"
      unfolding eq by blast+
    then show ?thesis by simp
  qed
  have doms: "dom (fs ?w2) = dom (fs w1)"
    unfolding dom_def using same by simp
  have "stdout ?w2 = stdout ?v0 @ map (\<lambda>(g, n, msg). msg) diagrams @ [success_line]"
    using ok2 by (rule stdout_main_ok)
  moreover have "stdout w1 = stdout ?w0 @ map (\<lambda>(g, n, msg). msg) diagrams @ [success_line]"
    unfolding w1 using ok1 by (rule stdout_main_ok)
  ultimately have out: "stdout ?w2 = stdout w1" by simp
  have "dot_calls ?w2 = dot_calls ?v0 @ map (\<lambda>(g, n, msg). output_dir ?v0 @ [n]) diagrams"
    using ok2 by (rule dot_calls_main_ok)
  moreover have "dot_calls w1 = dot_calls ?w0 @ map (\<lambda>(g, n, msg). output_dir ?w0 @ [n]) diagrams"
    unfolding w1 using ok1 by (rule dot_calls_main_ok)
  ultimately have calls: "dot_calls ?w2 = dot_calls w1" by (simp add: od1 od2)
  have equal: "(\<forall>(g, n, msg) \<in> set diagrams. the_image be' g = the_image be g) \<longrightarrow> fs ?w2 = fs w1"
  proof
    assume im: "\<forall>(g, n, msg) \<in> set diagrams. the_image be' g = the_image be g"
    show "fs ?w2 = fs w1"
    proof (rule ext)
      fix p
      show "fs ?w2 p = fs w1 p"
      proof (cases "\<forall>(g, n, msg) \<in> set diagrams. p \<noteq> start @ [''diagrams'', n @ ''.png'']")
        case True
        then show ?thesis by (rule other)
      next
        case False
        then obtain g n msg where d: "(g, n, msg) \<in> set diagrams"
          and eq: "p = start @ [''diagrams'', n @ ''.png'']"
          by blast
        from d images have "fs w1 p = Some (PngFile (the_image be g))"
          and "fs ?w2 p = Some (PngFile (the_image be' g))"
          unfolding eq by blast+
        moreover from d im have "the_image be' g = the_image be g" by blast
        ultimately show ?thesis by simp
      qed
    qed
  qed
  show ?thesis
    by (rule exI [of _ ?w2]) (intro conjI run2 dir1 dir2 images others doms out calls equal)
qed

text \<open>
  An instance: a first run in an empty directory, and a second run whose layout program
  gives other images. The second run returns 0 and the overview image is the new one,
  where the old one was.
\<close>

theorem rerun_idempotent_witness:
  "\<exists>w1 w2. run_program (\<lambda>g. Inr ''first'') (\<lambda>c. None) [''home''] Map.empty = (0, w1) \<and>
     run_program (\<lambda>g. Inr ''second'') (\<lambda>c. None) [''home''] (fs w1) = (0, w2) \<and>
     fs w1 [''home'', ''diagrams'', ''burn-templates-overview.png''] = Some (PngFile ''first'') \<and>
     fs w2 [''home'', ''diagrams'', ''burn-templates-overview.png''] = Some (PngFile ''second'') \<and>
     dom (fs w2) = dom (fs w1)"
proof -
  let ?b1 = "\<lambda>g :: digraph. Inr ''first'' :: string + string"
  let ?b2 = "\<lambda>g :: digraph. Inr ''second'' :: string + string"
  let ?no = "\<lambda>c :: os_call. None :: py_error option"
  let ?w0 = "\<lparr>fs = Map.empty, cwd = [''home''], stdout = [], dot_calls = [], os_fault = ?no\<rparr>"
  let ?w1 = "snd (run_program ?b1 ?no [''home''] Map.empty)"
  have "all_ok ?b1 ?w0"
    by (simp add: all_ok_def can_enter_def can_render_def diagrams_def output_dir_def)
  then have "fst (main ?b1 ?w0) = 0" by (simp add: main_status)
  then have 1: "run_program ?b1 ?no [''home''] Map.empty = (0, ?w1)"
    by (simp add: run_program_def prod_eq_iff)
  have 2: "list_all (\<lambda>(g, n, msg). case ?b2 g of Inl err \<Rightarrow> False | Inr img \<Rightarrow> True) diagrams"
    by (simp add: diagrams_def)
  have last: "(templates_overview_dot, ''burn-templates-overview'',
         ''Created templates overview: burn-templates-overview.png'') \<in> set diagrams"
    by (simp add: diagrams_def)
  obtain w2 where r: "run_program ?b2 ?no [''home''] (fs ?w1) = (0, w2)"
    and i: "\<forall>(g, n, msg) \<in> set diagrams.
        fs ?w1 ([''home''] @ [''diagrams'', n @ ''.png'']) = Some (PngFile (the_image ?b1 g)) \<and>
        fs w2 ([''home''] @ [''diagrams'', n @ ''.png'']) = Some (PngFile (the_image ?b2 g))"
    and d: "dom (fs w2) = dom (fs ?w1)"
    using rerun_idempotent [OF 1 2] by blast
  from i last
  have "fs ?w1 ([''home''] @ [''diagrams'', ''burn-templates-overview'' @ ''.png'']) =
      Some (PngFile (the_image ?b1 templates_overview_dot)) \<and>
    fs w2 ([''home''] @ [''diagrams'', ''burn-templates-overview'' @ ''.png'']) =
      Some (PngFile (the_image ?b2 templates_overview_dot))"
    by blast
  then have a: "fs ?w1 [''home'', ''diagrams'', ''burn-templates-overview.png''] = Some (PngFile ''first'')"
    and b: "fs w2 [''home'', ''diagrams'', ''burn-templates-overview.png''] = Some (PngFile ''second'')"
    by (simp_all add: the_image_def)
  show ?thesis
    by (rule exI [of _ ?w1], rule exI [of _ w2]) (intro conjI 1 r a b d)
qed
end
